theory Spec2Isabelle
  imports Main
begin

section \<open>Python values used by the LaTeX document generator\<close>

text \<open>
  The text that the table code handles is a list of 8-bit characters; the escaping
  functions, whose patterns reach beyond them, work on lists of code points. The
  exceptions the modelled code can raise are values of \<open>error\<close>; a function that can raise
  returns \<open>error + 'a\<close> or carries the pending exception next to the document state.
\<close>

datatype error = ValueError | TypeError | IndexError | ZeroDivisionError | StopIteration

text \<open>\<open>ord\<close> and \<open>chr\<close> of Python, on the code points a \<open>char\<close> can hold.\<close>

definition ord :: "char \<Rightarrow> int" where
  "ord c = int (of_char c)"

definition chr :: "int \<Rightarrow> error + char" where
  "chr i = (if 0 \<le> i \<and> i < 256 then Inr (char_of (nat i)) else Inl ValueError)"

section \<open>Auxiliaries of table construction (latexdoc.py)\<close>

text \<open>
  \<open>get_charform\<close> raises ValueError when \<open>col_num > ord('z') - ord('a')\<close> and returns
  \<open>chr(ord('a') + col_num)\<close> otherwise, which itself raises for a negative argument.
\<close>

definition get_charform :: "int \<Rightarrow> error + char" where
  "get_charform col_num =
     (if col_num > ord (CHR ''z'') - ord (CHR ''a'') then Inl ValueError
      else chr (ord (CHR ''a'') + col_num))"

definition get_numform :: "char \<Rightarrow> int" where
  "get_numform col_char = ord col_char - ord (CHR ''a'')"

definition MULTCOL_COUNT_BASE :: string where
  "MULTCOL_COUNT_BASE = ''aaa''"

text \<open>
  The \<open>for i in range(len(lili)-1, -1, -1)\<close> loop of \<open>str_incr\<close>, on the reversed list:
  the first position that is below \<open>'z'\<close> is incremented and the loop breaks; every
  position passed on the way is reset to \<open>'a'\<close>.
\<close>

fun incr_from_right :: "string \<Rightarrow> string" where
  "incr_from_right [] = []"
| "incr_from_right (c # cs) =
     (if (of_char c :: nat) < of_char (CHR ''z'') then char_of (of_char c + (1::nat)) # cs
      else CHR ''a'' # incr_from_right cs)"

text \<open>
  The generator \<open>str_incr\<close>: not yet started, suspended at its \<open>yield\<close> with the
  current \<open>lili\<close>, or finished (after the ValueError). \<open>next_gen\<close> is one call of
  \<open>next()\<close>: the value yielded or the exception raised, and the generator afterwards.
\<close>

datatype gen = NotStarted string | AtYield string | Finished

definition str_incr :: "string \<Rightarrow> gen" where
  "str_incr str_counter = NotStarted str_counter"

fun next_gen :: "gen \<Rightarrow> (error + string) \<times> gen" where
  "next_gen (NotStarted lili) = (Inr lili, AtYield lili)"
| "next_gen (AtYield lili) =
     (if lili = replicate (length lili) (CHR ''z'') then (Inl ValueError, Finished)
      else let lili' = rev (incr_from_right (rev lili)) in (Inr lili', AtYield lili'))"
| "next_gen Finished = (Inl StopIteration, Finished)"

text \<open>The generator after \<open>n\<close> calls of \<open>next()\<close>, and the result of call number \<open>n + 1\<close>.\<close>

fun after_nexts :: "nat \<Rightarrow> gen \<Rightarrow> gen" where
  "after_nexts 0 g = g"
| "after_nexts (Suc n) g = after_nexts n (snd (next_gen g))"

fun nth_next :: "nat \<Rightarrow> gen \<Rightarrow> error + string" where
  "nth_next 0 g = fst (next_gen g)"
| "nth_next (Suc n) g = nth_next n (snd (next_gen g))"

text \<open>The three-letter base-26 numeral of \<open>k\<close>, most significant letter first.\<close>

definition letter :: "nat \<Rightarrow> char" where
  "letter d = char_of (97 + d)"

definition base26 :: "nat \<Rightarrow> string" where
  "base26 k = [letter (k div 676), letter ((k div 26) mod 26), letter (k mod 26)]"

section \<open>Python string operations\<close>

text \<open>The backslash cannot be written inside a string literal.\<close>

abbreviation bslash :: char where
  "bslash \<equiv> CHR 0x5C"

definition SEPARATION_PAT :: string where
  "SEPARATION_PAT = ''&&''"

definition startswith :: "'a list \<Rightarrow> 'a list \<Rightarrow> bool" where
  "startswith s p = (take (length p) s = p)"

text \<open>\<open>s.find(sub) != -1\<close>: \<open>sub\<close> occurs in \<open>s\<close>.\<close>

primrec py_contains :: "'a list \<Rightarrow> 'a list \<Rightarrow> bool" where
  "py_contains [] sub = (sub = [])"
| "py_contains (c # cs) sub = (startswith (c # cs) sub \<or> py_contains cs sub)"

text \<open>\<open>s.replace(old, new)\<close>: the occurrences of \<open>old\<close> are found from the left and do
  not overlap.\<close>

function py_replace :: "'a list \<Rightarrow> 'a list \<Rightarrow> 'a list \<Rightarrow> 'a list" where
  "py_replace old new s =
     (if old = [] then new @ concat (map (\<lambda>c. c # new) s)
      else if s = [] then []
      else if startswith s old then new @ py_replace old new (drop (length old) s)
      else hd s # py_replace old new (tl s))"
  by pat_completeness auto
termination
  by (relation "measure (\<lambda>(old, new, s). length s)") auto

declare py_replace.simps [simp del]

text \<open>\<open>s.split(sep)\<close> for a non-empty separator (Python raises ValueError for the empty
  one; the modelled code only splits at \<open>SEPARATION_PAT\<close>). \<open>acc\<close> is the piece read so
  far.\<close>

function py_split_acc :: "string \<Rightarrow> string \<Rightarrow> string \<Rightarrow> string list" where
  "py_split_acc sep acc s =
     (if s = [] then [acc]
      else if sep \<noteq> [] \<and> startswith s sep
        then acc # py_split_acc sep [] (drop (length sep) s)
      else py_split_acc sep (acc @ [hd s]) (tl s))"
  by pat_completeness auto
termination
  by (relation "measure (\<lambda>(sep, acc, s). length s)") auto

declare py_split_acc.simps [simp del]

definition py_split :: "string \<Rightarrow> string \<Rightarrow> string list" where
  "py_split sep s = py_split_acc sep [] s"

text \<open>\<open>s.strip(chars)\<close> removes leading and trailing characters that occur in \<open>chars\<close>;
  \<open>s.strip()\<close> removes white space (the white space code points below 256).\<close>

definition py_strip_chars :: "string \<Rightarrow> string \<Rightarrow> string" where
  "py_strip_chars chars s =
     rev (dropWhile (\<lambda>c. c \<in> set chars) (rev (dropWhile (\<lambda>c. c \<in> set chars) s)))"

definition whitespace :: string where
  "whitespace = map char_of [9, 10, 11, 12, 13, 28, 29, 30, 31, 32, 133, 160 :: nat]"

definition py_strip :: "string \<Rightarrow> string" where
  "py_strip s = py_strip_chars whitespace s"

text \<open>\<open>sep.join(xs)\<close>.\<close>

fun py_join :: "string \<Rightarrow> string list \<Rightarrow> string" where
  "py_join sep [] = []"
| "py_join sep [x] = x"
| "py_join sep (x # y # ys) = x @ sep @ py_join sep (y # ys)"

text \<open>Decimal text of an integer: \<open>repr(n)\<close>, \<open>'%d' % n\<close>.\<close>

fun show_nat :: "nat \<Rightarrow> string" where
  "show_nat n =
     (if n < 10 then [char_of (48 + n)] else show_nat (n div 10) @ [char_of (48 + n mod 10)])"

declare show_nat.simps [simp del]

definition show_int :: "int \<Rightarrow> string" where
  "show_int i = (if i < 0 then CHR ''-'' # show_nat (nat (- i)) else show_nat (nat i))"

text \<open>
  \<open>re.sub(TBLFMT_PAT, '\\1c\\2', head)\<close> with \<open>TBLFMT_PAT = ({\|?)l(\|?})\<close>: the pattern
  matches exactly the four texts \<open>{l}\<close>, \<open>{|l}\<close>, \<open>{l|}\<close>, \<open>{|l|}\<close>, at most one of them
  at a position, and the \<open>l\<close> of every match, taken from the left, becomes \<open>c\<close>.
\<close>

function tblfmt_sub :: "string \<Rightarrow> string" where
  "tblfmt_sub s =
     (if s = [] then []
      else if startswith s ''{|l|}'' then ''{|c|}'' @ tblfmt_sub (drop 5 s)
      else if startswith s ''{|l}'' then ''{|c}'' @ tblfmt_sub (drop 4 s)
      else if startswith s ''{l|}'' then ''{c|}'' @ tblfmt_sub (drop 4 s)
      else if startswith s ''{l}'' then ''{c}'' @ tblfmt_sub (drop 3 s)
      else hd s # tblfmt_sub (tl s))"
  by pat_completeness auto
termination
  by (relation "measure length") auto

declare tblfmt_sub.simps [simp del]

text \<open>\<open>max(xs)\<close> of a list of lengths; ValueError on the empty list.\<close>

definition py_max :: "nat list \<Rightarrow> error + nat" where
  "py_max xs = (case xs of [] \<Rightarrow> Inl ValueError | x # ys \<Rightarrow> Inr (fold max ys x))"

section \<open>Structure of the table memory\<close>

record TabCell =
  colchar :: char
  span :: int
  head :: string
  content :: string

record TabRow =
  cells :: "TabCell list"
  tail :: string
  addit :: string

record TabMem =
  mem_head :: string
  mem_tail :: string
  rows :: "TabRow list"

definition new_TabRow :: TabRow where
  "new_TabRow = \<lparr>cells = [], tail = [], addit = []\<rparr>"

definition new_TabMem :: "string \<Rightarrow> TabMem" where
  "new_TabMem text = \<lparr>mem_head = text, mem_tail = [], rows = []\<rparr>"

text \<open>The constants for routing in table construction.\<close>

datatype tab_state = CELL_BEG | CELL_TEXT | CELL_END | ROW_BEG | ROW_END | TAB_BEG | TAB_END

text \<open>\<open>pict_width\<close> holds whatever \<open>add_media\<close> was given as \<open>x\<close>: a number or a text.\<close>

datatype pyval = PyNum int | PyStr string

text \<open>
  What \<open>self._backend.write\<close> receives. A write whose text is one call of a macro of
  \<open>_LATEX_TEMPLATE\<close> is recorded as that call with its arguments; every other write is
  \<open>Text\<close>.
  \<^item> \<open>GrInitTab n\<close>: \<^verbatim>\<open>\grinittab{\textwidth}{repr(1.0/n)}%\<close>
  \<^item> \<open>GrAddToTabWidth w\<close>: \<^verbatim>\<open>\addtolength{\grtabwidth}{-repr(w)\grbaseindent -2\tabcolsep}%\<close>
  \<^item> \<open>GrSetPictSize w\<close>: \<^verbatim>\<open>\setlength{\grpictsize}{w\grbaseindent}%\<close>
  \<^item> \<open>GrTextNeedWidth part\<close>: \<^verbatim>\<open>\grtextneedwidth{part}%\<close>
  \<^item> \<open>GrSetReqFull\<close>: \<^verbatim>\<open>\grsetreqfull%\<close>
  \<^item> \<open>GrSetReqPart c\<close>: \<^verbatim>\<open>\grsetreqpart{\grcolbegc}%\<close>
  \<^item> \<open>GrColsFirstFix c\<close>:
    \<^verbatim>\<open>\grcolsfirstfix {\grcolbegc}{\grtempwidthc}{\grfinalwidthc}{\grpictreqc}{\grtextreqc}%\<close>
  \<^item> \<open>GrDivideLength\<close>: \<^verbatim>\<open>\grdividelength%\<close>
  \<^item> \<open>GrColsSecondFix c\<close>:
    \<^verbatim>\<open>\grcolssecondfix {\grcolbegc}{\grtempwidthc}{\grfinalwidthc}{\grpictreqc}%\<close>
  \<^item> \<open>GrColsThirdFix c\<close>: \<^verbatim>\<open>\grcolsthirdfix {\grcolbegc}{\grtempwidthc}{\grfinalwidthc}%\<close>
  \<^item> \<open>GrColsFourthFix c\<close>: \<^verbatim>\<open>\grcolsfourthfix {\grcolbegc}{\grtempwidthc}{\grfinalwidthc}%\<close>
  \<^item> \<open>GrGetSpanWidth id b c\<close>:
    \<^verbatim>\<open>\grgetspanwidth{\grspanwidthid}{\grcolbegb}{\grcolbegc}{\grtempwidthc}%\<close>
\<close>

datatype latex =
    Text string
  | GrInitTab int
  | GrAddToTabWidth pyval
  | GrSetPictSize string
  | GrTextNeedWidth string
  | GrSetReqFull
  | GrSetReqPart char
  | GrColsFirstFix char
  | GrDivideLength
  | GrColsSecondFix char
  | GrColsThirdFix char
  | GrColsFourthFix char
  | GrGetSpanWidth string char char

text \<open>
  The attributes of a \<open>LaTeXDoc\<close> that the table code reads and writes. \<open>backend\<close> is
  the sequence of writes made so far. \<open>tabcell\<close>, \<open>tabrow\<close> and \<open>tabmem\<close> are held by
  value: the model follows the source on event streams in which every cell, row and
  table is begun before it is used, where the source's objects are not shared.
\<close>

record latexdoc =
  in_table :: bool
  in_multrow_cell :: bool
  pict :: string
  pict_in_table :: bool
  pict_width :: pyval
  textmem :: "string list"
  curcol :: int
  currow :: int
  colspan :: int
  curcol_char :: char
  numcols :: int
  tabcell :: TabCell
  tabrow :: TabRow
  tabmem :: TabMem
  backend :: "latex list"
  multcol_alph_counter :: gen
  head_line :: bool
  doline :: bool
  skipfirst :: bool

text \<open>A method returns the exception it raised, if any, and the document as it then is.\<close>

type_synonym result = "error option \<times> latexdoc"

definition then_do :: "result \<Rightarrow> (latexdoc \<Rightarrow> result) \<Rightarrow> result" where
  "then_do r f = (case r of (None, st) \<Rightarrow> f st | (Some e, st) \<Rightarrow> (Some e, st))"

definition backend_write :: "latex \<Rightarrow> latexdoc \<Rightarrow> latexdoc" where
  "backend_write x st = st\<lparr>backend := backend st @ [x]\<rparr>"

text \<open>\<open>xs[i]\<close> of Python, where a negative index counts from the end.\<close>

definition py_index :: "'a list \<Rightarrow> int \<Rightarrow> error + 'a" where
  "py_index xs i =
     (if 0 \<le> i \<and> i < int (length xs) then Inr (xs ! nat i)
      else if i < 0 \<and> - int (length xs) \<le> i then Inr (xs ! nat (int (length xs) + i))
      else Inl IndexError)"

text \<open>The position that the index \<open>i\<close> names in \<open>xs\<close>.\<close>

definition py_position :: "'a list \<Rightarrow> int \<Rightarrow> nat" where
  "py_position xs i = nat (if i < 0 then int (length xs) + i else i)"

section \<open>repack_row\<close>

text \<open>The sub-values of every cell: the content without leading and trailing
  separator characters and without line breaks, split at the separator.\<close>

definition bare_contents :: "TabCell list \<Rightarrow> string list list" where
  "bare_contents cs =
     map (\<lambda>cell. py_split SEPARATION_PAT
            (py_replace ''\<newline>'' [] (py_strip_chars SEPARATION_PAT (content cell)))) cs"

definition cols_equ_len :: "nat \<Rightarrow> string list list \<Rightarrow> string list list" where
  "cols_equ_len num_new_rows bare =
     map (\<lambda>mrc. mrc @ replicate (num_new_rows - length mrc) []) bare"

text \<open>\<open>list(zip(*cols))\<close> for columns of the common length \<open>n\<close>.\<close>

definition transp_cont :: "nat \<Rightarrow> string list list \<Rightarrow> string list list" where
  "transp_cont n cols = map (\<lambda>row. map (\<lambda>mrc. mrc ! row) cols) [0..<n]"

text \<open>The inner loop \<open>for i in range(first_cell, last_cell)\<close> (with \<open>first_cell = 0\<close>)
  that builds the cells of one new row from the old cells and one transposed row.\<close>

fun new_cells :: "int list \<Rightarrow> TabCell list \<Rightarrow> string list \<Rightarrow> error + TabCell list" where
  "new_cells [] old tr = Inr []"
| "new_cells (i # rest) old tr =
     (case get_charform (i + 0) of
        Inl e \<Rightarrow> Inl e
      | Inr ch \<Rightarrow>
          (case py_index old i of
             Inl e \<Rightarrow> Inl e
           | Inr oc \<Rightarrow>
               (case py_index tr (i + 0) of
                  Inl e \<Rightarrow> Inl e
                | Inr v \<Rightarrow>
                    (case new_cells rest old tr of
                       Inl e \<Rightarrow> Inl e
                     | Inr cs \<Rightarrow>
                         Inr (\<lparr>colchar = ch, span = span oc, head = head oc, content = v\<rparr> # cs)))))"

text \<open>The outer loop \<open>for row in range(num_new_rows)\<close>.\<close>

fun append_new_rows ::
  "nat list \<Rightarrow> int list \<Rightarrow> TabCell list \<Rightarrow> string list list \<Rightarrow> string \<Rightarrow> TabMem
     \<Rightarrow> error option \<times> TabMem" where
  "append_new_rows [] cols old tcont rtail mem = (None, mem)"
| "append_new_rows (row # later) cols old tcont rtail mem =
     (case new_cells cols old (tcont ! row) of
        Inl e \<Rightarrow> (Some e, mem)
      | Inr cs \<Rightarrow>
          append_new_rows later cols old tcont rtail
            (mem\<lparr>rows := rows mem @ [\<lparr>cells = cs, tail = rtail, addit = []\<rparr>]\<rparr>))"

text \<open>\<open>self.tabmem.rows[-1].addit = self.tabrow.addit\<close> and the reset of the mode.\<close>

definition finish_repack :: "latexdoc \<Rightarrow> result" where
  "finish_repack st =
     (case rows (tabmem st) of
        [] \<Rightarrow> (Some IndexError, st)
      | r # rs \<Rightarrow>
          (None, st\<lparr>tabmem := (tabmem st)\<lparr>rows :=
                        butlast (r # rs) @ [(last (r # rs))\<lparr>addit := addit (tabrow st)\<rparr>]\<rparr>,
                     in_multrow_cell := False\<rparr>))"

text \<open>\<open>transp_cont[0][-1]\<close>, which is looked at only when a picture is pending.\<close>

definition first_row_last :: "string list list \<Rightarrow> error + string" where
  "first_row_last tcont =
     (case tcont of [] \<Rightarrow> Inl IndexError | first_row # later \<Rightarrow> py_index first_row (- 1))"

text \<open>The part "picts? extract" and the loop, once \<open>num_new_rows\<close> is known.\<close>

definition repack_rows :: "nat \<Rightarrow> string list list \<Rightarrow> latexdoc \<Rightarrow> result" where
  "repack_rows num_new_rows tcont st =
     (case (if pict_in_table st then first_row_last tcont else Inr []) of
        Inl e \<Rightarrow> (Some e, st)
      | Inr v \<Rightarrow>
          let picture = (pict_in_table st \<and> startswith v (bslash # ''grmkpicture''));
              last_cell = (if picture then numcols st - 1 else numcols st);
              st1 = (if picture
                     then backend_write (GrAddToTabWidth (pict_width st))
                            (st\<lparr>pict := v, numcols := numcols st - 1\<rparr>)
                     else st);
              st2 = st1\<lparr>pict_in_table := False\<rparr>
          in case append_new_rows [0..<num_new_rows] [0..last_cell - 1] (cells (tabrow st2))
                    tcont (tail (tabrow st2)) (tabmem st2) of
               (Some e, mem) \<Rightarrow> (Some e, st2\<lparr>tabmem := mem\<rparr>)
             | (None, mem) \<Rightarrow> finish_repack (st2\<lparr>tabmem := mem\<rparr>))"

definition repack_row :: "latexdoc \<Rightarrow> result" where
  "repack_row st =
     (if cells (tabrow st) = [] then (Some IndexError, st)
      else
        let st1 = (if content (last (cells (tabrow st))) = []
                   then st\<lparr>tabrow := (tabrow st)\<lparr>cells := butlast (cells (tabrow st))\<rparr>,
                           numcols := numcols st - 1\<rparr>
                   else st);
            bare = bare_contents (cells (tabrow st1))
        in case py_max (map length bare) of
             Inl e \<Rightarrow> (Some e, st1)
           | Inr num_new_rows \<Rightarrow>
               repack_rows num_new_rows
                 (transp_cont num_new_rows (cols_equ_len num_new_rows bare)) st1)"

section \<open>calc_latex_widths\<close>

text \<open>The body of \<open>for row in self.tabmem.rows\<close> for column \<open>col_num\<close>: the row as it is
  afterwards and the writes made. \<open>''.join\<close> of a \<open>pict_width\<close> that is not a text raises
  TypeError.\<close>

definition measure_cell :: "pyval \<Rightarrow> int \<Rightarrow> TabRow \<Rightarrow> error option \<times> TabRow \<times> latex list" where
  "measure_cell pw col_num row =
     (case py_index (cells row) col_num of
        Inl e \<Rightarrow> (Some e, row, [])
      | Inr cell \<Rightarrow>
          if span cell = 0 then (None, row, [])
          else
            (case (if startswith (content cell) (bslash # ''grmkpicture'')
                   then (case pw of
                           PyStr w \<Rightarrow> (None, row, [GrSetPictSize w])
                         | PyNum n \<Rightarrow> (Some TypeError, row, []))
                   else (None,
                         row\<lparr>cells := (cells row)[py_position (cells row) col_num :=
                            cell\<lparr>content := py_replace SEPARATION_PAT
                                    (''~'' @ bslash # ''newline \<newline>'') (content cell)\<rparr>]\<rparr>,
                         map GrTextNeedWidth (py_split SEPARATION_PAT (content cell)))) of
               (Some e, row', out) \<Rightarrow> (Some e, row', out)
             | (None, row', out) \<Rightarrow>
                 if span cell = 1 then (None, row', out @ [GrSetReqFull])
                 else if span cell > 1 then
                   (case get_charform (get_numform (colchar cell) - span cell + 1) of
                      Inl e \<Rightarrow> (Some e, row', out)
                    | Inr c \<Rightarrow> (None, row', out @ [GrSetReqPart c]))
                 else (None, row', out)))"

fun measure_rows :: "pyval \<Rightarrow> int \<Rightarrow> TabRow list \<Rightarrow> error option \<times> TabRow list \<times> latex list" where
  "measure_rows pw col_num [] = (None, [], [])"
| "measure_rows pw col_num (row # rest) =
     (case measure_cell pw col_num row of
        (Some e, row', out) \<Rightarrow> (Some e, row' # rest, out)
      | (None, row', out) \<Rightarrow>
          (case measure_rows pw col_num rest of
             (err, rest', out') \<Rightarrow> (err, row' # rest', out @ out')))"

text \<open>The loop \<open>for col_num in range(self.numcols)\<close>: the rows afterwards,
  \<open>tabcol_chars\<close> and the writes made.\<close>

fun first_pass ::
  "pyval \<Rightarrow> int list \<Rightarrow> TabRow list \<Rightarrow> error option \<times> TabRow list \<times> char list \<times> latex list" where
  "first_pass pw [] rws = (None, rws, [], [])"
| "first_pass pw (col_num # cols) rws =
     (case get_charform col_num of
        Inl e \<Rightarrow> (Some e, rws, [], [])
      | Inr col_char \<Rightarrow>
          (case measure_rows pw col_num rws of
             (Some e, rws', out) \<Rightarrow> (Some e, rws', [col_char], out)
           | (None, rws', out) \<Rightarrow>
               (case first_pass pw cols rws' of
                  (err, rws'', chars, out') \<Rightarrow>
                    (err, rws'', col_char # chars, out @ [GrColsFirstFix col_char] @ out'))))"

text \<open>The last loop: one \<open>\grgetspanwidth\<close> for every cell with \<open>span > 1\<close>.\<close>

fun span_cells :: "TabCell list \<Rightarrow> gen \<Rightarrow> error option \<times> gen \<times> latex list" where
  "span_cells [] g = (None, g, [])"
| "span_cells (cell # rest) g =
     (if span cell > 1 then
        (case next_gen g of
           (Inl e, g') \<Rightarrow> (Some e, g', [])
         | (Inr multcol_alph_id, g') \<Rightarrow>
             (case get_charform (get_numform (colchar cell) - span cell + 1) of
                Inl e \<Rightarrow> (Some e, g', [])
              | Inr c \<Rightarrow>
                  (case span_cells rest g' of
                     (err, g'', out) \<Rightarrow>
                       (err, g'', GrGetSpanWidth multcol_alph_id c (colchar cell) # out))))
      else span_cells rest g)"

fun span_rows :: "TabRow list \<Rightarrow> gen \<Rightarrow> error option \<times> gen \<times> latex list" where
  "span_rows [] g = (None, g, [])"
| "span_rows (row # rest) g =
     (case span_cells (cells row) g of
        (Some e, g', out) \<Rightarrow> (Some e, g', out)
      | (None, g', out) \<Rightarrow>
          (case span_rows rest g' of (err, g'', out') \<Rightarrow> (err, g'', out @ out')))"

definition fix_passes :: "char list \<Rightarrow> latex list" where
  "fix_passes tabcol_chars =
     [GrDivideLength] @ map GrColsSecondFix tabcol_chars @
     [GrDivideLength] @ map GrColsThirdFix tabcol_chars @
     [GrDivideLength] @ map GrColsFourthFix tabcol_chars"

definition calc_latex_widths :: "latexdoc \<Rightarrow> result" where
  "calc_latex_widths st =
     (case first_pass (pict_width st) [0..numcols st - 1] (rows (tabmem st)) of
        (Some e, rws, tabcol_chars, out) \<Rightarrow>
          (Some e, st\<lparr>tabmem := (tabmem st)\<lparr>rows := rws\<rparr>, backend := backend st @ out\<rparr>)
      | (None, rws, tabcol_chars, out) \<Rightarrow>
          (case span_rows rws (str_incr MULTCOL_COUNT_BASE) of
             (err, g, out') \<Rightarrow>
               (err, st\<lparr>tabmem := (tabmem st)\<lparr>rows := rws\<rparr>,
                       backend := backend st @ out @ fix_passes tabcol_chars @ out',
                       multcol_alph_counter := g\<rparr>)))"

section \<open>write_table\<close>

text \<open>The cell width named in a row: the column's own width register, or the next
  span-width register from the generator for every span other than 1.\<close>

definition cell_width :: "TabCell \<Rightarrow> gen \<Rightarrow> (error + string) \<times> gen" where
  "cell_width cell g =
     (if span cell = 1 then (Inr (([bslash] @ ''grtempwidth'') @ [colchar cell]), g)
      else (case next_gen g of
              (Inl e, g') \<Rightarrow> (Inl e, g')
            | (Inr multcol_alph_id, g') \<Rightarrow> (Inr (([bslash] @ ''grspanwidth'') @ multcol_alph_id), g')))"

fun splitting_cells ::
  "int \<Rightarrow> TabCell list \<Rightarrow> string list \<Rightarrow> string \<Rightarrow> gen \<Rightarrow> error option \<times> gen \<times> string list" where
  "splitting_cells n [] splitting add_vdots g = (None, g, splitting)"
| "splitting_cells n (cell # rest) splitting add_vdots g =
     (if span cell = 0 then splitting_cells n rest splitting add_vdots g
      else
        let add_vdots' = (if splitting = [] \<and> get_numform (colchar cell) = n - 1
                          then ([bslash] @ ''graddvdots'') else add_vdots)
        in case cell_width cell g of
             (Inl e, g') \<Rightarrow> (Some e, g', splitting)
           | (Inr cw, g') \<Rightarrow>
               splitting_cells n rest
                 (splitting @ [[bslash] @ ''grtabpgbreak{'' @ head cell @ ''}{'' @ cw @ ''}{'' @ add_vdots' @
                               ''}{+2ex}%\<newline>''])
                 add_vdots' g')"

definition mk_splitting_row :: "TabRow \<Rightarrow> latexdoc \<Rightarrow> error option \<times> latexdoc \<times> string" where
  "mk_splitting_row row st =
     (case splitting_cells (numcols st) (cells row) [] ([bslash] @ ''grempty'') (multcol_alph_counter st) of
        (err, g, splitting) \<Rightarrow>
          (err, st\<lparr>multcol_alph_counter := g\<rparr>,
           py_join '' & '' splitting @ ''%\<newline>'' @ tail row))"

fun complete_cells :: "TabCell list \<Rightarrow> string list \<Rightarrow> gen \<Rightarrow> error option \<times> gen \<times> string list" where
  "complete_cells [] complete g = (None, g, complete)"
| "complete_cells (cell # rest) complete g =
     (if span cell = 0 then complete_cells rest complete g
      else
        case cell_width cell g of
          (Inl e, g') \<Rightarrow> (Some e, g', complete)
        | (Inr cw, g') \<Rightarrow>
            complete_cells rest
              (complete @ [[bslash] @ ''grcolpart{%\<newline>  '' @ head cell @ ''}{%\<newline>'' @ cw @ ''}{%\<newline>  '' @
                           content cell @ ''%\<newline>}%\<newline>''])
              g')"

definition mk_complete_row :: "TabRow \<Rightarrow> latexdoc \<Rightarrow> error option \<times> latexdoc \<times> string" where
  "mk_complete_row row st =
     (case complete_cells (cells row) [] (multcol_alph_counter st) of
        (err, g, complete) \<Rightarrow>
          (err, st\<lparr>multcol_alph_counter := g\<rparr>,
           py_join '' & '' complete @ ''%\<newline>'' @ tail row @ addit row))"

text \<open>\<open>for col_num in range(self.numcols)\<close>: the lines for manual adjustment.\<close>

fun write_adjust_lines :: "int list \<Rightarrow> latexdoc \<Rightarrow> result" where
  "write_adjust_lines [] st = (None, st)"
| "write_adjust_lines (col_num # cols) st =
     (case get_charform col_num of
        Inl e \<Rightarrow> (Some e, st)
      | Inr c \<Rightarrow>
          write_adjust_lines cols
            (backend_write (Text ([bslash] @ ''addtolength{'' @ [bslash] @ ''grtempwidth'' @ [c] @ ''}{+0.0cm}%\<newline>'')) st))"

text \<open>\<open>for row in self.tabmem.rows[SUBSEQ_ROW:]\<close>.\<close>

fun write_subseq_rows :: "TabRow list \<Rightarrow> latexdoc \<Rightarrow> result" where
  "write_subseq_rows [] st = (None, st)"
| "write_subseq_rows (row # rest) st =
     (case mk_complete_row row st of
        (Some e, st', txt) \<Rightarrow> (Some e, st')
      | (None, st', txt) \<Rightarrow> write_subseq_rows rest (backend_write (Text txt) st'))"

definition write_table_head :: "latexdoc \<Rightarrow> latexdoc" where
  "write_table_head st =
     backend_write (Text (''%\<newline>'' @ pict st @ ''%\<newline>%\<newline>%  ==> Comment out one of the two lines by a leading '' @ [CHR 0x22] @ ''%'' @ [CHR 0x22] @ '' (first position)\<newline>{ '' @ [bslash] @ ''RaggedRight%      left align with hyphenation in table \<newline>%{%                no left align in table \<newline>%\<newline>%  ==>  You may add pos or neg values to the following '' @ show_int (numcols st) @
                          '' column widths %\<newline>'')) st"

definition write_table_rows :: "TabRow \<Rightarrow> latexdoc \<Rightarrow> result" where
  "write_table_rows first_row st =
     (case mk_splitting_row first_row (st\<lparr>multcol_alph_counter := str_incr MULTCOL_COUNT_BASE\<rparr>) of
        (Some e, st1, splitting_row) \<Rightarrow> (Some e, st1)
      | (None, st1, splitting_row) \<Rightarrow>
          (case mk_complete_row first_row
                  (st1\<lparr>multcol_alph_counter := str_incr MULTCOL_COUNT_BASE\<rparr>) of
             (Some e, st2, complete_row) \<Rightarrow> (Some e, st2)
           | (None, st2, complete_row) \<Rightarrow>
               let st3 = backend_write (Text ([bslash] @ ''endfoot%\<newline>''))
                          (backend_write (Text (py_replace ''{+2ex}'' ''{-2ex}'' splitting_row))
                            (backend_write (Text ([bslash] @ ''endhead%\<newline>''))
                              (backend_write (Text splitting_row) st2)));
                   st4 = (if head_line st3
                          then (backend_write (Text ([bslash] @ ''hline%\<newline>'')) st3)\<lparr>head_line := False\<rparr>
                          else backend_write (Text ''%\<newline>'') st3);
                   st5 = backend_write (Text ([bslash] @ ''endlastfoot%\<newline>''))
                          (backend_write (Text ([bslash] @ ''endfirsthead%\<newline>''))
                            (backend_write (Text complete_row) st4))
               in then_do (write_subseq_rows (tl (rows (tabmem st5))) st5)
                    (\<lambda>st6. (None, backend_write
                                    (Text (mem_tail (tabmem st6) @ ''}%\<newline>\<newline>'')) st6))))"

definition write_table :: "latexdoc \<Rightarrow> result" where
  "write_table st =
     then_do (write_adjust_lines [0..numcols st - 1] (write_table_head st))
       (\<lambda>st1.
          let st2 = backend_write (Text ''%  === %\<newline>'') st1;
              st3 = (if pict st2 \<noteq> []
                     then (backend_write (Text (''%\<newline>'' @ [bslash] @ ''vspace{'' @ [bslash] @ ''grtabprepos}%\<newline>'' @ [bslash] @ ''setlength{'' @ [bslash] @ ''grtabprepos}{0ex}%\<newline>'')) st2)\<lparr>pict := []\<rparr>
                     else st2);
              st4 = backend_write (Text (mem_head (tabmem st3))) st3
          in case rows (tabmem st4) of
               [] \<Rightarrow> (Some IndexError, st4\<lparr>multcol_alph_counter := str_incr MULTCOL_COUNT_BASE\<rparr>)
             | first_row # rest \<Rightarrow> write_table_rows first_row st4)"

section \<open>The table event router\<close>

text \<open>The phantom cells of \<open>for col in range(self.curcol - span, self.curcol - 1)\<close>.\<close>

fun append_phantoms :: "int list \<Rightarrow> TabCell list \<Rightarrow> error option \<times> TabCell list" where
  "append_phantoms [] cs = (None, cs)"
| "append_phantoms (col # cols) cs =
     (case get_charform col of
        Inl e \<Rightarrow> (Some e, cs)
      | Inr col_char \<Rightarrow>
          append_phantoms cols
            (cs @ [\<lparr>colchar = col_char, span = 0, head = [], content = []\<rparr>]))"

fun handle_table :: "string \<Rightarrow> tab_state \<Rightarrow> int \<Rightarrow> latexdoc \<Rightarrow> result" where
  "handle_table text CELL_BEG spn st =
     (let st1 = st\<lparr>textmem := []\<rparr> in
      case get_charform (curcol st1 - 1) of
        Inl e \<Rightarrow> (Some e, st1)
      | Inr ch \<Rightarrow>
          let st2 = st1\<lparr>curcol_char := ch\<rparr> in
          case (if spn > 1
                then append_phantoms [curcol st2 - spn..curcol st2 - 1 - 1] (cells (tabrow st2))
                else (None, cells (tabrow st2))) of
            (Some e, cs) \<Rightarrow> (Some e, st2\<lparr>tabrow := (tabrow st2)\<lparr>cells := cs\<rparr>\<rparr>)
          | (None, cs) \<Rightarrow>
              (None, st2\<lparr>tabrow := (tabrow st2)\<lparr>cells := cs\<rparr>,
                         tabcell := \<lparr>colchar = curcol_char st2, span = spn, head = text,
                                     content = []\<rparr>\<rparr>))"
| "handle_table text CELL_TEXT spn st = (None, st\<lparr>textmem := textmem st @ [text]\<rparr>)"
| "handle_table text CELL_END spn st =
     (let stripped = py_strip (concat (textmem st));
          cell = (if py_contains stripped (bslash # ''centering'')
                  then (tabcell st)\<lparr>content := py_replace (bslash # ''centering'') [] stripped,
                                     head := tblfmt_sub (head (tabcell st))\<rparr>
                  else (tabcell st)\<lparr>content := stripped\<rparr>)
      in (None, st\<lparr>tabcell := cell,
                    tabrow := (tabrow st)\<lparr>cells := cells (tabrow st) @ [cell]\<rparr>,
                    textmem := []\<rparr>))"
| "handle_table text ROW_BEG spn st = (None, st\<lparr>tabrow := new_TabRow\<rparr>)"
| "handle_table text ROW_END spn st =
     (let st1 = st\<lparr>tabrow := (tabrow st)\<lparr>addit := text, tail := concat (textmem st)\<rparr>\<rparr> in
      if in_multrow_cell st1 then repack_row st1
      else (None, st1\<lparr>tabmem := (tabmem st1)\<lparr>rows := rows (tabmem st1) @ [tabrow st1]\<rparr>\<rparr>))"
| "handle_table text TAB_BEG spn st =
     (if numcols st = 0 then (Some ZeroDivisionError, st)
      else (None, (backend_write (GrInitTab (numcols st)) st)\<lparr>tabmem := new_TabMem text\<rparr>))"
| "handle_table text TAB_END spn st =
     then_do (calc_latex_widths (st\<lparr>tabmem := (tabmem st)\<lparr>mem_tail := text\<rparr>\<rparr>)) write_table"

text \<open>\<open>LaTeXBaseDoc.emit\<close>: the text, indented once more for a level other than
  zero, goes to the backend.\<close>

definition base_emit :: "string \<Rightarrow> int \<Rightarrow> latexdoc \<Rightarrow> result" where
  "base_emit text level st =
     (let text' = (if level \<noteq> 0 then concat (replicate (nat level) ''  '') @ text else text)
      in (None, backend_write (Text text') st))"

text \<open>\<open>LaTeXDoc.emit\<close> for a \<open>tab_state\<close> that is one of the routing constants: outside a
  table the indented text is handed to \<open>LaTeXBaseDoc.emit\<close> together with the level,
  inside a table to \<open>handle_table\<close>.\<close>

definition emit :: "string \<Rightarrow> int \<Rightarrow> tab_state \<Rightarrow> int \<Rightarrow> latexdoc \<Rightarrow> result" where
  "emit text level tab_st spn st =
     (let text' = (if level \<noteq> 0 then concat (replicate (nat level) ''  '') @ text else text)
      in if \<not> in_table st then base_emit text' level st
         else handle_table text' tab_st spn st)"

text \<open>
  The routing constants are integers,
  \<^verbatim>\<open>(CELL_BEG, CELL_TEXT, CELL_END, ROW_BEG, ROW_END, TAB_BEG, TAB_END) = list(range(7))\<close>,
  and the parameters of \<open>emit(self, text, level=0, tab_state=CELL_TEXT, span=1)\<close> are bound
  by position. \<open>routing_code\<close> is the integer of a constant and \<open>routed\<close> the constant that
  an integer equals; \<open>handle_table\<close> compares \<open>tab_state\<close> with the constants one after the
  other and does nothing for any other value. \<open>emit_int\<close> is \<open>LaTeXDoc.emit\<close> for a
  \<open>tab_state\<close> that is any integer.
\<close>

fun routing_code :: "tab_state \<Rightarrow> int" where
  "routing_code CELL_BEG = 0"
| "routing_code CELL_TEXT = 1"
| "routing_code CELL_END = 2"
| "routing_code ROW_BEG = 3"
| "routing_code ROW_END = 4"
| "routing_code TAB_BEG = 5"
| "routing_code TAB_END = 6"

definition routed :: "int \<Rightarrow> tab_state option" where
  "routed k =
     (if k = 0 then Some CELL_BEG
      else if k = 1 then Some CELL_TEXT
      else if k = 2 then Some CELL_END
      else if k = 3 then Some ROW_BEG
      else if k = 4 then Some ROW_END
      else if k = 5 then Some TAB_BEG
      else if k = 6 then Some TAB_END
      else None)"

definition emit_int :: "string \<Rightarrow> int \<Rightarrow> int \<Rightarrow> int \<Rightarrow> latexdoc \<Rightarrow> result" where
  "emit_int text level k spn st =
     (case routed k of
        Some tab_st \<Rightarrow> emit text level tab_st spn st
      | None \<Rightarrow>
          let text' = (if level \<noteq> 0 then concat (replicate (nat level) ''  '') @ text else text)
          in if \<not> in_table st then base_emit text' level st else (None, st))"

section \<open>The TextDoc interface for tables\<close>

text \<open>The borders of a cell style: the left, right, bottom and top border values of the
  style sheet, which is not part of the modelled code.\<close>

record cell_style =
  left_border :: int
  right_border :: int
  bottom_border :: int
  top_border :: int

text \<open>
  The interface methods call \<open>self.emit(text, K)\<close> with a routing constant \<open>K\<close> as the
  second positional argument, which is the parameter \<open>level\<close>: the text is indented by
  \<open>K\<close> levels and \<open>tab_state\<close> keeps its default \<open>CELL_TEXT\<close>. \<open>start_cell\<close> calls
  \<open>self.emit(text, CELL_BEG, span)\<close>: the level is \<open>CELL_BEG\<close>, which is zero, and the
  span is bound to \<open>tab_state\<close>, while the parameter \<open>span\<close> keeps its default 1.
  \<open>start_table\<close> is given the number of columns of the table style.
\<close>

definition start_table :: "int \<Rightarrow> latexdoc \<Rightarrow> result" where
  "start_table columns st =
     emit ([bslash] @ ''begin{longtable}[l]{*{'' @ show_int columns @ ''}{l}}\<newline>'')
       (routing_code TAB_BEG) CELL_TEXT 1
       (st\<lparr>in_table := True, currow := 0, numcols := columns\<rparr>)"

definition end_table :: "latexdoc \<Rightarrow> result" where
  "end_table st =
     then_do (emit (''%\<newline>'' @ [bslash] @ ''end{longtable}%\<newline>'') (routing_code TAB_END) CELL_TEXT 1 st)
       (\<lambda>st'. (None, st'\<lparr>in_table := False\<rparr>))"

definition start_row :: "latexdoc \<Rightarrow> result" where
  "start_row st =
     then_do (emit [] (routing_code ROW_BEG) CELL_TEXT 1 st)
       (\<lambda>st'. (None, st'\<lparr>doline := False, skipfirst := False, curcol := 0,
                           currow := currow st' + 1\<rparr>))"

definition end_row :: "latexdoc \<Rightarrow> result" where
  "end_row st =
     then_do (emit ([bslash] @ [bslash] @ '' '') 0 CELL_TEXT 1 st)
       (\<lambda>st1. then_do
          (if doline st1 then
             (if skipfirst st1
              then emit ([bslash] @ ''cline{2-'' @ show_int (numcols st1) @ ''}'' @ ''%\<newline>'')
                     (routing_code ROW_END) CELL_TEXT 1 st1
              else emit ([bslash] @ ''hline %\<newline>'') (routing_code ROW_END) CELL_TEXT 1 st1)
           else emit ''%\<newline>'' (routing_code ROW_END) CELL_TEXT 1 st1)
          (\<lambda>st2. emit ''%\<newline>'' 0 CELL_TEXT 1 st2))"

definition start_cell :: "cell_style \<Rightarrow> int \<Rightarrow> latexdoc \<Rightarrow> result" where
  "start_cell cstyle spn st =
     (let st1 = st\<lparr>colspan := spn\<rparr>;
          st2 = st1\<lparr>curcol := curcol st1 + colspan st1\<rparr>;
          lborder = (left_border cstyle = 1);
          rborder = (right_border cstyle = 1);
          bborder = (bottom_border cstyle = 1);
          tborder = (top_border cstyle \<noteq> 0);
          cellfmt0 = ''l'';
          cellfmt1 = (if lborder then ''|'' @ cellfmt0 else cellfmt0);
          cellfmt = (if rborder then cellfmt1 @ ''|'' else cellfmt1);
          st3 = (if bborder then st2\<lparr>doline := True\<rparr>
                 else if curcol st2 = 1 then st2\<lparr>skipfirst := True\<rparr> else st2);
          st4 = (if tborder then st3\<lparr>head_line := True\<rparr> else st3)
      in emit_int ([bslash] @ ''multicolumn{'' @ show_int spn @ ''}{'' @ cellfmt @ ''}'')
           (routing_code CELL_BEG) spn 1 st4)"

definition end_cell :: "latexdoc \<Rightarrow> result" where
  "end_cell st = emit [] (routing_code CELL_END) CELL_TEXT 1 st"

text \<open>\<open>write_text\<close> hands its text, escaped by the caller's \<open>latexescape\<close> and followed by
  a blank, to \<open>self.emit(text + ' ')\<close>.\<close>

definition emit_text :: "string \<Rightarrow> latexdoc \<Rightarrow> result" where
  "emit_text text st = emit (text @ '' '') 0 CELL_TEXT 1 st"

section \<open>Auxiliary values for the statements\<close>

text \<open>A phantom cell: the placeholder for a column consumed by a multi-column cell.\<close>

definition phantom :: "char \<Rightarrow> TabCell" where
  "phantom c = \<lparr>colchar = c, span = 0, head = [], content = []\<rparr>"

text \<open>A document with the class-level defaults of \<open>LaTeXDoc\<close>; the attributes that the
  class does not initialise hold neutral values.\<close>

definition fresh_doc :: latexdoc where
  "fresh_doc = \<lparr>in_table = False, in_multrow_cell = False, pict = [], pict_in_table = False,
     pict_width = PyNum 0, textmem = [], curcol = 0, currow = 0, colspan = 1,
     curcol_char = CHR ''a'', numcols = 0,
     tabcell = \<lparr>colchar = CHR ''a'', span = 1, head = [], content = []\<rparr>,
     tabrow = new_TabRow, tabmem = new_TabMem [], backend = [],
     multcol_alph_counter = str_incr MULTCOL_COUNT_BASE, head_line = False,
     doline = False, skipfirst = False\<rparr>"













definition single_empty_example :: latexdoc where
  "single_empty_example = fresh_doc\<lparr>in_table := True, in_multrow_cell := True, numcols := 1,
     tabrow := \<lparr>cells = [\<lparr>colchar = CHR ''a'', span = 1, head = ''l'', content = []\<rparr>],
                 tail = [bslash, bslash], addit = ''%''\<rparr>\<rparr>"

text \<open>The instructions of the four width-fix passes among the writes, and the sequence
  that the four passes make for given column letters.\<close>

fun is_pass :: "latex \<Rightarrow> bool" where
  "is_pass (GrColsFirstFix c) = True"
| "is_pass GrDivideLength = True"
| "is_pass (GrColsSecondFix c) = True"
| "is_pass (GrColsThirdFix c) = True"
| "is_pass (GrColsFourthFix c) = True"
| "is_pass x = False"

definition four_passes :: "char list \<Rightarrow> latex list" where
  "four_passes cols =
     map GrColsFirstFix cols @ [GrDivideLength] @ map GrColsSecondFix cols @
     [GrDivideLength] @ map GrColsThirdFix cols @ [GrDivideLength] @
     map GrColsFourthFix cols"

text \<open>A buffered table of two columns and two rows without spans.\<close>

definition table_example :: latexdoc where
  "table_example = fresh_doc\<lparr>in_table := True, numcols := 2,
     tabmem := \<lparr>mem_head = ''{longtable}'', mem_tail = ''{longtable}'',
       rows = [\<lparr>cells = [\<lparr>colchar = CHR ''a'', span = 1, head = ''l'', content = ''Name''\<rparr>,
                          \<lparr>colchar = CHR ''b'', span = 1, head = ''l'', content = ''Born''\<rparr>],
                 tail = [bslash, bslash], addit = ''%''\<rparr>,
               \<lparr>cells = [\<lparr>colchar = CHR ''a'', span = 1, head = ''l'', content = ''Ann''\<rparr>,
                          \<lparr>colchar = CHR ''b'', span = 1, head = ''l'', content = ''1900''\<rparr>],
                 tail = [bslash, bslash], addit = ''%''\<rparr>]\<rparr>\<rparr>"

text \<open>What a table event other than the closing one may write: nothing, or the
  initialisation at \<open>TAB_BEG\<close>, or the width reduction for a picture at a repacked
  \<open>ROW_END\<close>.\<close>

definition event_writes :: "tab_state \<Rightarrow> latexdoc \<Rightarrow> latex list \<Rightarrow> bool" where
  "event_writes kind st w =
     (w = []
      \<or> (kind = TAB_BEG \<and> w = [GrInitTab (numcols st)])
      \<or> (kind = ROW_END \<and> in_multrow_cell st \<and> pict_in_table st
          \<and> w = [GrAddToTabWidth (pict_width st)]))"

section \<open>Escaping (latexbasedoc.py)\<close>

text \<open>
  \<open>latexescape\<close> replaces one text after the other; its last pattern is the three code
  points U+00E2, U+2020, U+2019.
\<close>

type_synonym unicode = "nat list"

definition text_of :: "string \<Rightarrow> unicode" where
  "text_of s = map of_char s"

definition latexescape :: "unicode \<Rightarrow> unicode" where
  "latexescape text =
     (let text = py_replace (text_of ''&'') (text_of ([bslash] @ ''&'')) text;
          text = py_replace (text_of ''$'') (text_of ([bslash] @ ''$'')) text;
          text = py_replace (text_of ''%'') (text_of ([bslash] @ ''%'')) text;
          text = py_replace (text_of ''#'') (text_of ([bslash] @ ''#'')) text;
          text = py_replace (text_of ''_'') (text_of ([bslash] @ ''_'')) text;
          text = py_replace (text_of ''{'') (text_of ([bslash] @ ''{'')) text;
          text = py_replace (text_of ''}'') (text_of ([bslash] @ ''}'')) text;
          text = py_replace [0xE2, 0x2020, 0x2019]
                   (text_of (''$'' @ [bslash] @ ''longrightarrow$'')) text
      in text)"

text \<open>
  \<open>escape\<close>: the pattern is the alternation of the keys of \<open>lookup\<close>, each a single
  character, so every character that is a key is replaced by its value and every other
  character is kept.
\<close>

definition lookup :: "(nat \<times> unicode) list" where
  "lookup =
     [(of_char (CHR ''&''), text_of ([bslash] @ ''&'')),
      (of_char (CHR ''%''), text_of ([bslash] @ ''%'')),
      (of_char (CHR ''$''), text_of ([bslash] @ ''$'')),
      (of_char (CHR ''#''), text_of ([bslash] @ ''#'')),
      (of_char (CHR ''_''), text_of ([bslash] @ ''_'')),
      (of_char (CHR ''{''), text_of ([bslash] @ ''{'')),
      (of_char (CHR ''}''), text_of ([bslash] @ ''}'')),
      (of_char (CHR ''~''), text_of ([bslash] @ ''~{}'')),
      (of_char (CHR ''^''), text_of ([bslash] @ ''^{}'')),
      (of_char bslash, text_of ([bslash] @ ''textbackslash{}''))]"

definition escape :: "unicode \<Rightarrow> unicode" where
  "escape text =
     concat (map (\<lambda>c. case map_of lookup c of Some r \<Rightarrow> r | None \<Rightarrow> [c]) text)"

text \<open>
  The reserved characters; what \<open>latexescape\<close> makes of one character before its last
  replacement; the first seven replacements of \<open>latexescape\<close>; and a text without an
  unescaped reserved character: read from the left, every reserved character begins one
  of the values of \<open>lookup\<close>.
\<close>

definition reserved :: unicode where
  "reserved = text_of (''&$%#_{}~^'' @ [bslash])"

definition esc7 :: "nat \<Rightarrow> unicode" where
  "esc7 c = (if c \<in> set (text_of ''&$%#_{}'') then [of_char bslash, c] else [c])"

fun strip_token :: "'a list list \<Rightarrow> 'a list \<Rightarrow> 'a list option" where
  "strip_token [] s = None"
| "strip_token (t # ts) s =
     (if t \<noteq> [] \<and> startswith s t then Some (drop (length t) s) else strip_token ts s)"

function safe_text :: "unicode \<Rightarrow> bool" where
  "safe_text s =
     (if s = [] then True
      else if hd s \<in> set reserved
        then (case strip_token (map snd lookup) s of
                None \<Rightarrow> False
              | Some rest \<Rightarrow> safe_text rest)
      else safe_text (tl s))"
  by pat_completeness auto
termination
proof -
  have shorter: "length r < length s"
    if "strip_token ts s = Some r" and "s \<noteq> []" for ts and s r :: unicode
    using that by (induction ts) (auto split: if_splits)
  show ?thesis
    by (relation "measure length") (auto dest: shorter)
qed

declare safe_text.simps [simp del]

definition seven :: "unicode \<Rightarrow> unicode" where
  "seven text =
     (let text = py_replace (text_of ''&'') (text_of ([bslash] @ ''&'')) text;
          text = py_replace (text_of ''$'') (text_of ([bslash] @ ''$'')) text;
          text = py_replace (text_of ''%'') (text_of ([bslash] @ ''%'')) text;
          text = py_replace (text_of ''#'') (text_of ([bslash] @ ''#'')) text;
          text = py_replace (text_of ''_'') (text_of ([bslash] @ ''_'')) text;
          text = py_replace (text_of ''{'') (text_of ([bslash] @ ''{'')) text;
          text = py_replace (text_of ''}'') (text_of ([bslash] @ ''}'')) text
      in text)"

section \<open>The width-negotiation macros of the LaTeX template (latexbasedoc.py)\<close>

text \<open>
  The macros of \<open>_LATEX_TEMPLATE\<close> that the table code calls are state transformers on
  the length registers and counters that the template declares. Lengths are integers
  (TeX counts in scaled points). What the typesetting engine supplies is a parameter:
  the text width, \<open>\tabcolsep\<close>, the natural width of a text (\<open>\settowidth\<close>), the length
  that a text followed by \<open>\grbaseindent\<close> denotes, and \<open>times env p q x\<close>, the product of
  the decimal factor \<open>p/q\<close> and the length \<open>x\<close> as the engine rounds it.
\<close>

record texenv =
  textwidth :: int
  tabcolsep :: int
  settowidth :: "string \<Rightarrow> int"
  baseindent_times :: "string \<Rightarrow> int"
  times :: "int \<Rightarrow> int \<Rightarrow> int \<Rightarrow> int"

text \<open>The registers: lengths, the two counters, and the registers that the macros make
  per column letter (\<open>\grcolbegc\<close>, \<open>\grtempwidthc\<close>, \<open>\grfinalwidthc\<close>, \<open>\grpictreqc\<close>,
  \<open>\grtextreqc\<close>) and per span identifier (\<open>\grspanwidthid\<close>).\<close>

record texstate =
  grtabwidth :: int
  grreqwidth :: int
  grtempwd :: int
  grmaxwidth :: int
  grprorated :: int
  grxwd :: int
  grwidthused :: int
  grreduce :: int
  grcurcolend :: int
  grpictsize :: int
  grmaxpictsize :: int
  grtextsize :: int
  grmaxtextsize :: int
  grtofixcnt :: int
  grxwdcolcnt :: int
  grcolbeg :: "char \<Rightarrow> int"
  grtempwidth :: "char \<Rightarrow> int"
  grfinalwidth :: "char \<Rightarrow> int"
  grpictreq :: "char \<Rightarrow> int"
  grtextreq :: "char \<Rightarrow> int"
  grspanwidth :: "string \<Rightarrow> int"

text \<open>\<open>repr\<close> of \<open>pict_width\<close>, as it stands in the width reduction of \<open>repack_row\<close>;
  then the macros, each named as in the template. \<open>\grmaxvaltofirst{a}{b}\<close> is
  \<open>a := max a b\<close> and \<open>\grinitlength\<close> sets a register.\<close>

definition py_repr :: "pyval \<Rightarrow> string" where
  "py_repr v = (case v of PyNum n \<Rightarrow> show_int n | PyStr s \<Rightarrow> [CHR 0x27] @ s @ [CHR 0x27])"

definition grinittab :: "texenv \<Rightarrow> int \<Rightarrow> texstate \<Rightarrow> texstate" where
  "grinittab env n T =
     T\<lparr>grtabwidth := textwidth env,
       grprorated := times env 1 n (textwidth env),
       grwidthused := 0, grreqwidth := 0, grmaxwidth := 0, grxwd := 0, grtempwd := 0,
       grpictsize := 0, grmaxpictsize := 0, grtextsize := 0, grmaxtextsize := 0,
       grcurcolend := 0, grxwdcolcnt := 0, grtofixcnt := 0,
       grcolbeg := (grcolbeg T)(CHR ''a'' := 0)\<rparr>"

definition grsetreqfull :: "texstate \<Rightarrow> texstate" where
  "grsetreqfull T =
     T\<lparr>grmaxpictsize := max (grmaxpictsize T) (grpictsize T),
       grmaxtextsize := max (grmaxtextsize T) (grtextsize T)\<rparr>"

definition grsetreqpart :: "char \<Rightarrow> texstate \<Rightarrow> texstate" where
  "grsetreqpart c T =
     grsetreqfull
       (T\<lparr>grtextsize := grtextsize T + (grcolbeg T c - grcurcolend T),
          grpictsize := grpictsize T + (grcolbeg T c - grcurcolend T)\<rparr>)"

definition grdividelength :: "texenv \<Rightarrow> texstate \<Rightarrow> texstate" where
  "grdividelength env T =
     (let T1 = T\<lparr>grtempwd := grtabwidth T - grwidthused T\<rparr>;
          n = grtofixcnt T1; w = grtempwd T1
      in if n > 0 then
           T1\<lparr>grxwd := (if n = 1 then w
                         else if n = 2 then times env 5 10 w
                         else if n = 3 then times env 333 1000 w
                         else if n = 4 then times env 25 100 w
                         else if n = 5 then times env 2 10 w
                         else if n = 6 then times env 166 1000 w
                         else if n = 7 then times env 143 1000 w
                         else if n = 8 then times env 125 1000 w
                         else if n = 9 then times env 111 1000 w
                         else if n = 10 then times env 1 10 w
                         else grprorated T1),
              grreduce := 0\<rparr>
         else T1\<lparr>grxwd := 0\<rparr>)"

definition grtextneedwidth :: "texenv \<Rightarrow> string \<Rightarrow> texstate \<Rightarrow> texstate" where
  "grtextneedwidth env part T =
     (let T1 = T\<lparr>grtempwd := settowidth env part\<rparr>
      in T1\<lparr>grtextsize := max (grtextsize T1) (grtempwd T1)\<rparr>)"

definition grcolsfirstfix :: "texenv \<Rightarrow> char \<Rightarrow> texstate \<Rightarrow> texstate" where
  "grcolsfirstfix env c T =
     (let T1 = T\<lparr>grcolbeg := (grcolbeg T)(c := grcurcolend T),
                   grfinalwidth := (grfinalwidth T)(c := 0),
                   grpictreq := (grpictreq T)(c := grmaxpictsize T),
                   grtextreq := (grtextreq T)(c := grmaxtextsize T)\<rparr>;
          w = max (grtextreq T1 c) (grpictreq T1 c) + 2 * tabcolsep env;
          T2 = T1\<lparr>grtempwidth := (grtempwidth T1)(c := w),
                    grmaxwidth := max (grmaxwidth T1) w\<rparr>;
          T3 = (if w < grpictreq T2 c \<or> w < grprorated T2
                then T2\<lparr>grfinalwidth := (grfinalwidth T2)(c := w),
                        grwidthused := grwidthused T2 + w\<rparr>
                else T2\<lparr>grtofixcnt := grtofixcnt T2 + 1\<rparr>)
      in T3\<lparr>grcurcolend := grcurcolend T3 + w\<rparr>)"

definition grcolssecondfix :: "char \<Rightarrow> texstate \<Rightarrow> texstate" where
  "grcolssecondfix c T =
     (if grcurcolend T < grtabwidth T
      then T\<lparr>grfinalwidth := (grfinalwidth T)(c := grtempwidth T c)\<rparr>
      else
        let T1 = T\<lparr>grcolbeg := (grcolbeg T)(c := grcolbeg T c - grreduce T)\<rparr>
        in if grtempwidth T1 c = grmaxwidth T1
           then T1\<lparr>grxwdcolcnt := grxwdcolcnt T1 + 1\<rparr>
           else if grfinalwidth T1 c = 0 \<and> grpictreq T1 c > 0
           then
             let w = max (grpictreq T1 c) (grxwd T1)
             in T1\<lparr>grtempwd := w,
                   grreduce := grreduce T1 + (grtempwidth T1 c - w),
                   grtempwidth := (grtempwidth T1)(c := w),
                   grwidthused := grwidthused T1 + w,
                   grtofixcnt := grtofixcnt T1 - 1,
                   grfinalwidth := (grfinalwidth T1)(c := w)\<rparr>
           else T1)"

definition grcolsthirdfix :: "texenv \<Rightarrow> char \<Rightarrow> texstate \<Rightarrow> texstate" where
  "grcolsthirdfix env c T =
     (if grcurcolend T < grtabwidth T then T
      else
        let T1 = T\<lparr>grcolbeg := (grcolbeg T)(c := grcolbeg T c - grreduce T)\<rparr>
        in if grfinalwidth T1 c = 0 \<and> grtempwidth T1 c < grmaxwidth T1
           then
             let w = (if grtempwidth T1 c < times env 5 10 (grmaxwidth T1)
                      then max (times env 5 10 (grxwd T1)) (times env 7 10 (grprorated T1))
                      else grxwd T1)
             in T1\<lparr>grtempwd := w,
                   grreduce := grreduce T1 + (grtempwidth T1 c - w),
                   grtempwidth := (grtempwidth T1)(c := w),
                   grwidthused := grwidthused T1 + w,
                   grtofixcnt := grtofixcnt T1 - 1,
                   grfinalwidth := (grfinalwidth T1)(c := w)\<rparr>
           else T1)"

definition grcolsfourthfix :: "char \<Rightarrow> texstate \<Rightarrow> texstate" where
  "grcolsfourthfix c T =
     (if grcurcolend T < grtabwidth T then T
      else
        let T1 = T\<lparr>grcolbeg := (grcolbeg T)(c := grcolbeg T c - grreduce T)\<rparr>
        in if grfinalwidth T1 c = 0
           then T1\<lparr>grreduce := grreduce T1 + (grtempwidth T1 c - grxwd T1),
                   grtempwidth := (grtempwidth T1)(c := grxwd T1),
                   grfinalwidth := (grfinalwidth T1)(c := grxwd T1)\<rparr>
           else T1)"

definition grgetspanwidth :: "string \<Rightarrow> char \<Rightarrow> char \<Rightarrow> texstate \<Rightarrow> texstate" where
  "grgetspanwidth ident b c T =
     T\<lparr>grspanwidth := (grspanwidth T)(ident := grcolbeg T c - grcolbeg T b + grtempwidth T c)\<rparr>"

text \<open>What executing one write of the backend does to the registers.\<close>

fun exec :: "texenv \<Rightarrow> latex \<Rightarrow> texstate \<Rightarrow> texstate" where
  "exec env (Text t) T = T"
| "exec env (GrInitTab n) T = grinittab env n T"
| "exec env (GrAddToTabWidth w) T =
     T\<lparr>grtabwidth := grtabwidth T + (- baseindent_times env (py_repr w) - 2 * tabcolsep env)\<rparr>"
| "exec env (GrSetPictSize w) T = T\<lparr>grpictsize := baseindent_times env w\<rparr>"
| "exec env (GrTextNeedWidth part) T = grtextneedwidth env part T"
| "exec env GrSetReqFull T = grsetreqfull T"
| "exec env (GrSetReqPart c) T = grsetreqpart c T"
| "exec env (GrColsFirstFix c) T = grcolsfirstfix env c T"
| "exec env GrDivideLength T = grdividelength env T"
| "exec env (GrColsSecondFix c) T = grcolssecondfix c T"
| "exec env (GrColsThirdFix c) T = grcolsthirdfix env c T"
| "exec env (GrColsFourthFix c) T = grcolsfourthfix c T"
| "exec env (GrGetSpanWidth ident b c) T = grgetspanwidth ident b c T"

text \<open>The instructions that \<open>calc_latex_widths\<close> writes, and the registers after they have
  been executed from the registers \<open>T\<close>.\<close>

definition calc_output :: "latexdoc \<Rightarrow> latex list" where
  "calc_output st = drop (length (backend st)) (backend (snd (calc_latex_widths st)))"

definition negotiate :: "texenv \<Rightarrow> latexdoc \<Rightarrow> texstate \<Rightarrow> texstate" where
  "negotiate env st T = fold (exec env) (calc_output st) T"

text \<open>Kinds of instructions, and the conditions on the column registers that the
  passes establish: a final width is unset (zero) or equals the working width; it equals
  the working width; the natural widths fit the table.\<close>

fun is_fourthfix :: "latex \<Rightarrow> bool" where
  "is_fourthfix (GrColsFourthFix c) = True"
| "is_fourthfix x = False"

fun is_measure :: "latex \<Rightarrow> bool" where
  "is_measure (GrSetPictSize w) = True"
| "is_measure (GrTextNeedWidth part) = True"
| "is_measure GrSetReqFull = True"
| "is_measure (GrSetReqPart c) = True"
| "is_measure x = False"

fun is_span :: "latex \<Rightarrow> bool" where
  "is_span (GrGetSpanWidth ident b c) = True"
| "is_span x = False"

fun is_after_first :: "latex \<Rightarrow> bool" where
  "is_after_first GrDivideLength = True"
| "is_after_first (GrColsSecondFix c) = True"
| "is_after_first (GrColsThirdFix c) = True"
| "is_after_first (GrColsFourthFix c) = True"
| "is_after_first (GrGetSpanWidth ident b c) = True"
| "is_after_first x = False"

definition unset_or_final :: "char set \<Rightarrow> texstate \<Rightarrow> bool" where
  "unset_or_final S T =
     (\<forall>c\<in>S. grfinalwidth T c = 0 \<or> grfinalwidth T c = grtempwidth T c)"

definition all_final :: "char set \<Rightarrow> texstate \<Rightarrow> bool" where
  "all_final S T = (\<forall>c\<in>S. grfinalwidth T c = grtempwidth T c)"

definition fits :: "texstate \<Rightarrow> bool" where
  "fits T = (grcurcolend T < grtabwidth T)"

text \<open>Registers that are all zero, an engine in which a character is 10 units wide and
  products are rounded down, and a table whose single column is wider than the text.\<close>

definition tex_zero :: texstate where
  "tex_zero = \<lparr>grtabwidth = 0, grreqwidth = 0, grtempwd = 0, grmaxwidth = 0, grprorated = 0,
     grxwd = 0, grwidthused = 0, grreduce = 0, grcurcolend = 0, grpictsize = 0,
     grmaxpictsize = 0, grtextsize = 0, grmaxtextsize = 0, grtofixcnt = 0, grxwdcolcnt = 0,
     grcolbeg = (\<lambda>c. 0), grtempwidth = (\<lambda>c. 0), grfinalwidth = (\<lambda>c. 0),
     grpictreq = (\<lambda>c. 0), grtextreq = (\<lambda>c. 0), grspanwidth = (\<lambda>s. 0)\<rparr>"

definition env_example :: texenv where
  "env_example = \<lparr>textwidth = 100, tabcolsep = 1, settowidth = (\<lambda>s. 10 * int (length s)),
     baseindent_times = (\<lambda>s. 0), times = (\<lambda>p q x. x * p div q)\<rparr>"

definition wide_example :: latexdoc where
  "wide_example = fresh_doc\<lparr>in_table := True, numcols := 1,
     tabmem := \<lparr>mem_head = ''{longtable}'', mem_tail = ''{longtable}'',
       rows = [\<lparr>cells = [\<lparr>colchar = CHR ''a'', span = 1, head = ''l'',
                            content = ''a very long name''\<rparr>],
                 tail = [bslash, bslash], addit = ''%''\<rparr>]\<rparr>\<rparr>"

text \<open>
  A buffered table on which \<open>calc_latex_widths\<close> cannot fail: at most 26 declared columns,
  every row has a cell for each of them, no cell holds a picture, every multi-column cell
  begins at one of the columns 0..25, and there are at most 17576 multi-column cells.
  The further predicates relate a row to the row that the measuring of a column leaves.
\<close>

definition cell_ok :: "TabCell \<Rightarrow> bool" where
  "cell_ok cell =
     (\<not> startswith (content cell) (bslash # ''grmkpicture'')
      \<and> (1 < span cell \<longrightarrow>
            0 \<le> get_numform (colchar cell) - span cell + 1
            \<and> get_numform (colchar cell) - span cell + 1 \<le> 25))"

definition well_formed :: "latexdoc \<Rightarrow> bool" where
  "well_formed st =
     (numcols st \<le> 26
      \<and> (\<forall>row\<in>set (rows (tabmem st)).
            numcols st \<le> int (length (cells row)) \<and> (\<forall>cell\<in>set (cells row). cell_ok cell))
      \<and> length (filter (\<lambda>cell. 1 < span cell) (concat (map cells (rows (tabmem st)))))
          \<le> 17576)"

definition keeps :: "nat \<Rightarrow> TabRow \<Rightarrow> TabRow \<Rightarrow> bool" where
  "keeps i r r' =
     (length (cells r') = length (cells r)
      \<and> (\<forall>j<length (cells r). j \<noteq> i \<longrightarrow> cells r' ! j = cells r ! j)
      \<and> map colchar (cells r') = map colchar (cells r)
      \<and> map span (cells r') = map span (cells r))"

definition same_shape :: "TabRow \<Rightarrow> TabRow \<Rightarrow> bool" where
  "same_shape r r' =
     (map colchar (cells r') = map colchar (cells r) \<and> map span (cells r') = map span (cells r))"

definition spanning :: "TabCell list \<Rightarrow> nat" where
  "spanning cs = length (filter (\<lambda>cell. 1 < span cell) cs)"

definition start_ok :: "TabCell \<Rightarrow> bool" where
  "start_ok cell =
     (1 < span cell \<longrightarrow>
        0 \<le> get_numform (colchar cell) - span cell + 1
        \<and> get_numform (colchar cell) - span cell + 1 \<le> 25)"

text \<open>
  A cell style without borders; a table of three columns begun through the interface
  with its first row begun; and that row with one cell of span 3 and the text \<open>Ann\<close>,
  ended.
\<close>

definition plain_style :: cell_style where
  "plain_style = \<lparr>left_border = 0, right_border = 0, bottom_border = 0, top_border = 0\<rparr>"

definition span3_begun :: latexdoc where
  "span3_begun = snd (then_do (start_table 3 fresh_doc) start_row)"

definition span3_row :: result where
  "span3_row =
     then_do (start_cell plain_style 3 span3_begun)
       (\<lambda>st. then_do (emit_text ''Ann'' st) (\<lambda>st. then_do (end_cell st) end_row))"

text \<open>
  A table of \<open>n\<close> columns written through the interface: \<open>start_table\<close>, one row of \<open>n\<close>
  cells of span 1 that each hold the text \<open>x\<close>, \<open>end_table\<close>.
\<close>

fun add_cells :: "nat \<Rightarrow> latexdoc \<Rightarrow> result" where
  "add_cells 0 st = (None, st)"
| "add_cells (Suc n) st =
     then_do (start_cell plain_style 1 st)
       (\<lambda>st. then_do (emit_text ''x'' st) (\<lambda>st. then_do (end_cell st) (add_cells n)))"

definition table_of_columns :: "nat \<Rightarrow> result" where
  "table_of_columns n =
     then_do (start_table (int n) fresh_doc)
       (\<lambda>st. then_do (start_row st)
          (\<lambda>st. then_do (add_cells n st) (\<lambda>st. then_do (end_row st) end_table)))"

text \<open>A buffered table of one column whose only cell holds a picture, as \<open>add_media\<close>
  writes it; \<open>pict_width\<close> has the class default 0.\<close>

definition picture_table :: latexdoc where
  "picture_table = fresh_doc\<lparr>in_table := True, numcols := 1,
     tabmem := \<lparr>mem_head = ''{longtable}'', mem_tail = ''{longtable}'',
       rows = [\<lparr>cells = [\<lparr>colchar = CHR ''a'', span = 1, head = ''l'',
                            content = [bslash] @ ''grmkpicture{p.jpg}{2.0}{2.0}{p}%''\<rparr>],
                 tail = [bslash, bslash], addit = ''%''\<rparr>]\<rparr>\<rparr>"

text \<open>An engine with a text width of 7000 units in which a character is 1000 units wide
  and products are rounded down, and a table of seven columns with one row whose cells
  are all wider than a seventh of the text width.\<close>

definition env_wide :: texenv where
  "env_wide = \<lparr>textwidth = 7000, tabcolsep = 1, settowidth = (\<lambda>s. 1000 * int (length s)),
     baseindent_times = (\<lambda>s. 0), times = (\<lambda>p q x. x * p div q)\<rparr>"

definition seven_columns :: latexdoc where
  "seven_columns = fresh_doc\<lparr>in_table := True, numcols := 7,
     tabmem := \<lparr>mem_head = ''{longtable}'', mem_tail = ''{longtable}'',
       rows = [\<lparr>cells = map (\<lambda>c. \<lparr>colchar = c, span = 1, head = ''l'', content = ''ab''\<rparr>)
                          ''abcdefg'',
                 tail = [bslash, bslash], addit = ''%''\<rparr>]\<rparr>\<rparr>"

section \<open>Column letters\<close>

lemma of_char_letter: "d < 26 \<Longrightarrow> (of_char (letter d) :: nat) = 97 + d"
  by (simp add: letter_def)

lemma letter_z: "letter 25 = CHR ''z''"
  by code_simp

lemma letter_a: "letter 0 = CHR ''a''"
  by code_simp

lemma letter_inj: "d < 26 \<Longrightarrow> e < 26 \<Longrightarrow> letter d = letter e \<Longrightarrow> d = e"
  by (metis of_char_letter add_left_cancel)

lemma letter_next: "char_of (98 + d) = letter (Suc d)"
  by (simp add: letter_def)

lemma get_charform_letter:
  "0 \<le> i \<Longrightarrow> i \<le> 25 \<Longrightarrow> get_charform i = Inr (letter (nat i))"
  by (simp add: get_charform_def letter_def nat_add_distrib ord_def chr_def)

lemma get_charform_too_big: "25 < i \<Longrightarrow> get_charform i = Inl ValueError"
  by (simp add: get_charform_def ord_def)

lemma get_numform_letter: "d < 26 \<Longrightarrow> get_numform (letter d) = int d"
  by (simp add: get_numform_def ord_def of_char_letter)

lemma alphabet_nth: "d < 26 \<Longrightarrow> ''abcdefghijklmnopqrstuvwxyz'' ! d = letter d"
proof -
  have "\<forall>d<26. ''abcdefghijklmnopqrstuvwxyz'' ! d = letter d"
    by code_simp
  then show "d < 26 \<Longrightarrow> ''abcdefghijklmnopqrstuvwxyz'' ! d = letter d" by blast
qed

text \<open>
  For a zero-based column index, \<open>get_charform\<close> raises (a ValueError) exactly when the
  index exceeds 25, and for the indices 0..25 it returns the letters a..z in order.
\<close>

lemma get_charform_raises_iff:
  assumes "0 \<le> col_num"
  shows "(isl (get_charform col_num) \<longleftrightarrow> 25 < col_num)
       \<and> (25 < col_num \<longrightarrow> get_charform col_num = Inl ValueError)
       \<and> (col_num \<le> 25 \<longrightarrow>
            get_charform col_num = Inr (''abcdefghijklmnopqrstuvwxyz'' ! nat col_num))"
proof (cases "25 < col_num")
  case True
  then show ?thesis by (simp add: get_charform_too_big)
next
  case False
  then have le: "col_num \<le> 25" by simp
  then have "nat col_num < 26" using assms by simp
  then show ?thesis
    using get_charform_letter[OF assms le] le by (simp add: alphabet_nth)
qed

lemma get_charform_examples:
  "get_charform 3 = Inr (CHR ''d'') \<and> get_charform 26 = Inl ValueError"
  using get_charform_raises_iff[of 3] get_charform_raises_iff[of 26] by simp

text \<open>
  Claim C9. For every zero-based column index \<open>0 \<le> i \<le> 25\<close>, \<open>get_charform\<close> returns
  a letter that \<open>get_numform\<close> decodes to \<open>i\<close> again; so the encoding is injective on
  the range.
\<close>

theorem get_numform_get_charform:
  assumes "0 \<le> i" and "i \<le> 25"
  shows "\<exists>c. get_charform i = Inr c \<and> get_numform c = i"
  using assms by (simp add: get_charform_letter get_numform_letter)

theorem get_numform_get_charform_witness:
  "(0::int) \<le> 7 \<and> (7::int) \<le> 25 \<and> (\<exists>c. get_charform 7 = Inr c \<and> get_numform c = 7)"
  using get_numform_get_charform[of 7] by simp

section \<open>The multi-column identifier generator\<close>

lemma digits_div_mod:
  fixes d2 d1 d0 :: nat
  assumes "d1 < 26" "d0 < 26"
  shows "(676 * d2 + 26 * d1 + d0) div 676 = d2"
    and "(676 * d2 + 26 * d1 + d0) div 26 mod 26 = d1"
    and "(676 * d2 + 26 * d1 + d0) mod 26 = d0"
proof -
  have e: "676 * d2 + 26 * d1 + d0 = d0 + (26 * d2 + d1) * 26" by simp
  have q: "(676 * d2 + 26 * d1 + d0) div 26 = 26 * d2 + d1"
    using assms(2) by (subst e) simp
  have "(d0 + (26 * d2 + d1) * 26) mod 26 = d0 mod 26" by (rule mod_mult_self1)
  then show "(676 * d2 + 26 * d1 + d0) mod 26 = d0"
    using assms(2) by (simp only: e mod_less)
  have e1: "26 * d2 + d1 = d1 + d2 * 26" by simp
  have m1: "(d1 + d2 * 26) mod 26 = d1 mod 26" by (rule mod_mult_self1)
  show "(676 * d2 + 26 * d1 + d0) div 26 mod 26 = d1"
    using assms(1) m1 by (simp only: q e1 mod_less)
  have "(676 * d2 + 26 * d1 + d0) div 676 = (676 * d2 + 26 * d1 + d0) div 26 div 26"
    by (simp add: div_mult2_eq)
  also have "\<dots> = d2" using assms(1) by (simp only: q e1 div_mult_self1)
  finally show "(676 * d2 + 26 * d1 + d0) div 676 = d2" .
qed

lemma digits_decomp:
  fixes k :: nat
  shows "k = 676 * (k div 676) + 26 * ((k div 26) mod 26) + k mod 26"
proof -
  define q where "q = k div 26"
  define r where "r = k mod 26"
  define q2 where "q2 = q div 26"
  define r2 where "r2 = q mod 26"
  have a: "k = 26 * q + r" unfolding q_def r_def by simp
  have b: "q = 26 * q2 + r2" unfolding q2_def r2_def by simp
  have c: "k div 676 = q2" unfolding q2_def q_def by (simp add: div_mult2_eq)
  have "k = 676 * q2 + 26 * r2 + r" using a b by simp
  then show ?thesis unfolding c unfolding r2_def r_def q_def .
qed

lemma digits_bound: "k < 17576 \<Longrightarrow> k div 676 < (26::nat)"
  by (simp add: div_less_iff_less_mult)

lemma base26_digits:
  assumes "d1 < 26" "d0 < 26"
  shows "base26 (676 * d2 + 26 * d1 + d0) = [letter d2, letter d1, letter d0]"
  unfolding base26_def by (simp only: digits_div_mod[OF assms])

lemma incr3:
  assumes "d2 < 26" "d1 < 26" "d0 < 26" "\<not> (d2 = 25 \<and> d1 = 25 \<and> d0 = 25)"
  shows "rev (incr_from_right (rev [letter d2, letter d1, letter d0])) =
     (if d0 < 25 then [letter d2, letter d1, letter (Suc d0)]
      else if d1 < 25 then [letter d2, letter (Suc d1), letter 0]
      else [letter (Suc d2), letter 0, letter 0])"
  using assms by (auto simp: of_char_letter letter_next letter_a letter_z)

lemma base26_succ:
  assumes "k < 17575"
  shows "rev (incr_from_right (rev (base26 k))) = base26 (Suc k)" and "base26 k \<noteq> ''zzz''"
proof -
  define d2 where "d2 = k div 676"
  define d1 where "d1 = (k div 26) mod 26"
  define d0 where "d0 = k mod 26"
  have bd: "d2 < 26" "d1 < 26" "d0 < 26"
    using assms digits_bound[of k] unfolding d2_def d1_def d0_def by simp_all
  have k: "k = 676 * d2 + 26 * d1 + d0"
    unfolding d2_def d1_def d0_def by (rule digits_decomp)
  have nz: "\<not> (d2 = 25 \<and> d1 = 25 \<and> d0 = 25)"
  proof
    assume "d2 = 25 \<and> d1 = 25 \<and> d0 = 25"
    then have "k = 17575" using k by simp
    with assms show False by simp
  qed
  have bk: "base26 k = [letter d2, letter d1, letter d0]"
    by (simp add: base26_def d2_def d1_def d0_def)
  show "base26 k \<noteq> ''zzz''"
  proof
    assume "base26 k = ''zzz''"
    then have "letter d2 = letter 25" "letter d1 = letter 25" "letter d0 = letter 25"
      by (simp_all add: bk letter_z)
    then have "d2 = 25" "d1 = 25" "d0 = 25"
      using bd letter_inj[of d2 25] letter_inj[of d1 25] letter_inj[of d0 25] by simp_all
    with nz show False by simp
  qed
  consider (a) "d0 < 25" | (b) "d0 = 25" "d1 < 25" | (c) "d0 = 25" "d1 = 25" "d2 < 25"
    using bd nz by linarith
  then show "rev (incr_from_right (rev (base26 k))) = base26 (Suc k)"
  proof cases
    case a
    have e: "Suc k = 676 * d2 + 26 * d1 + Suc d0" using k by simp
    have "base26 (Suc k) = [letter d2, letter d1, letter (Suc d0)]"
      unfolding e by (rule base26_digits) (use bd a in simp_all)
    then show ?thesis using incr3[OF bd nz] a by (simp add: bk)
  next
    case b': b
    have e: "Suc k = 676 * d2 + 26 * Suc d1 + 0" using k b' by simp
    have "base26 (Suc k) = [letter d2, letter (Suc d1), letter 0]"
      unfolding e by (rule base26_digits) (use bd b' in simp_all)
    then show ?thesis using incr3[OF bd nz] b' by (simp add: bk)
  next
    case c
    have e: "Suc k = 676 * Suc d2 + 26 * 0 + 0" using k c by simp
    have "base26 (Suc k) = [letter (Suc d2), letter 0, letter 0]"
      unfolding e by (rule base26_digits) simp_all
    then show ?thesis using incr3[OF bd nz] c by (simp add: bk)
  qed
qed

lemma base26_first: "base26 0 = ''aaa''"
  by (simp add: base26_def letter_a)

lemma base26_last: "base26 17575 = ''zzz''"
proof -
  have "(17575::nat) = 676 * 25 + 26 * 25 + 25" by simp
  then have "base26 17575 = [letter 25, letter 25, letter 25]"
    using base26_digits[of 25 25 25] by (simp only:)
  then show ?thesis by (simp add: letter_z)
qed

lemma base26_length: "length (base26 k) = 3"
  by (simp add: base26_def)

lemma next_gen_base26:
  assumes "k < 17575"
  shows "next_gen (AtYield (base26 k)) = (Inr (base26 (Suc k)), AtYield (base26 (Suc k)))"
proof -
  have "replicate (length (base26 k)) (CHR ''z'') = ''zzz''"
    by (simp add: base26_length numeral_3_eq_3)
  then have "base26 k \<noteq> replicate (length (base26 k)) (CHR ''z'')"
    using base26_succ(2)[OF assms] by simp
  then show ?thesis
    using base26_succ(1)[OF assms] by (simp add: Let_def)
qed

lemma next_gen_zzz: "next_gen (AtYield ''zzz'') = (Inl ValueError, Finished)"
  by simp

lemma nth_next_after: "nth_next k g = fst (next_gen (after_nexts k g))"
  by (induction k arbitrary: g) simp_all

lemma after_nexts_Suc: "after_nexts (Suc k) g = snd (next_gen (after_nexts k g))"
  by (induction k arbitrary: g) simp_all

lemma after_nexts_str_incr:
  "k < 17576 \<Longrightarrow> after_nexts (Suc k) (str_incr ''aaa'') = AtYield (base26 k)"
proof (induction k)
  case 0
  then show ?case by (simp add: str_incr_def base26_first)
next
  case (Suc k)
  then have k: "k < 17575" by simp
  have "after_nexts (Suc (Suc k)) (str_incr ''aaa'') =
        snd (next_gen (after_nexts (Suc k) (str_incr ''aaa'')))"
    by (rule after_nexts_Suc)
  also have "\<dots> = snd (next_gen (AtYield (base26 k)))"
    using Suc k by simp
  also have "\<dots> = AtYield (base26 (Suc k))"
    by (simp only: next_gen_base26[OF k] snd_conv)
  finally show ?case .
qed

lemma nth_next_str_incr:
  assumes "k < 17576"
  shows "nth_next k (str_incr ''aaa'') = Inr (base26 k)"
proof (cases k)
  case 0
  then show ?thesis by (simp add: str_incr_def base26_first)
next
  case (Suc j)
  then have j: "j < 17576" "j < 17575" using assms by simp_all
  have "nth_next (Suc j) (str_incr ''aaa'') =
        fst (next_gen (after_nexts (Suc j) (str_incr ''aaa'')))"
    by (rule nth_next_after)
  also have "\<dots> = fst (next_gen (AtYield (base26 j)))"
    by (simp only: after_nexts_str_incr[OF j(1)])
  also have "\<dots> = Inr (base26 (Suc j))"
    by (simp only: next_gen_base26[OF j(2)] fst_conv)
  finally show ?thesis using Suc by simp
qed

lemma nth_next_str_incr_overflow:
  "nth_next (Suc 17575) (str_incr ''aaa'') = Inl ValueError"
proof -
  have "nth_next (Suc 17575) (str_incr ''aaa'') =
        fst (next_gen (after_nexts (Suc 17575) (str_incr ''aaa'')))"
    by (rule nth_next_after)
  also have "after_nexts (Suc 17575) (str_incr ''aaa'') = AtYield (base26 17575)"
    by (rule after_nexts_str_incr) simp
  also have "base26 17575 = ''zzz''" by (rule base26_last)
  also have "fst (next_gen (AtYield ''zzz'')) = Inl ValueError"
    by (simp only: next_gen_zzz fst_conv)
  finally show ?thesis .
qed

lemma base26_inj: "inj_on base26 {..<17576}"
proof (rule inj_onI)
  fix x y assume x: "x \<in> {..<17576}" and y: "y \<in> {..<17576}" and e: "base26 x = base26 y"
  have bx: "x div 676 < 26" "(x div 26) mod 26 < 26" "x mod 26 < 26"
    using x digits_bound[of x] by simp_all
  have by': "y div 676 < 26" "(y div 26) mod 26 < 26" "y mod 26 < 26"
    using y digits_bound[of y] by simp_all
  from e have l: "letter (x div 676) = letter (y div 676)"
    "letter ((x div 26) mod 26) = letter ((y div 26) mod 26)"
    "letter (x mod 26) = letter (y mod 26)"
    by (simp_all add: base26_def)
  have d: "x div 676 = y div 676" "(x div 26) mod 26 = (y div 26) mod 26" "x mod 26 = y mod 26"
    using letter_inj[OF bx(1) by'(1) l(1)] letter_inj[OF bx(2) by'(2) l(2)]
      letter_inj[OF bx(3) by'(3) l(3)] by blast+
  have "x = 676 * (x div 676) + 26 * ((x div 26) mod 26) + x mod 26"
    by (rule digits_decomp)
  also have "\<dots> = 676 * (y div 676) + 26 * ((y div 26) mod 26) + y mod 26"
    by (simp only: d)
  also have "\<dots> = y"
    by (rule digits_decomp[symmetric])
  finally show "x = y" .
qed

text \<open>
  Claim C8. Started from \<open>MULTCOL_COUNT_BASE = 'aaa'\<close>, the generator \<open>str_incr\<close> yields on
  its \<open>k+1\<close>-th request, for every \<open>k < 17576\<close>, the three-letter base-26 numeral of \<open>k\<close>:
  17576 pairwise distinct identifiers, the first \<open>'aaa'\<close> and the last \<open>'zzz'\<close>. The
  request after these raises ValueError.
\<close>

theorem str_incr_yields_17576:
  "(\<forall>k<17576. nth_next k (str_incr MULTCOL_COUNT_BASE) = Inr (base26 k))
   \<and> inj_on base26 {..<17576}
   \<and> base26 0 = ''aaa'' \<and> base26 17575 = ''zzz''
   \<and> nth_next 17576 (str_incr MULTCOL_COUNT_BASE) = Inl ValueError"
proof -
  have "(17576::nat) = Suc 17575" by simp
  then have "nth_next 17576 (str_incr ''aaa'') = Inl ValueError"
    using nth_next_str_incr_overflow by (simp only:)
  then show ?thesis
    using nth_next_str_incr base26_inj base26_first base26_last
    by (simp add: MULTCOL_COUNT_BASE_def)
qed

theorem str_incr_yields_17576_witness:
  "(27::nat) < 17576 \<and> nth_next 27 (str_incr MULTCOL_COUNT_BASE) = Inr ''abb''"
proof -
  have "nth_next 27 (str_incr MULTCOL_COUNT_BASE) = Inr (base26 27)"
    using str_incr_yields_17576 by simp
  moreover have "base26 27 = ''abb''" by code_simp
  ultimately show ?thesis by simp
qed

section \<open>Phantom cells of a multi-column cell\<close>

lemma append_phantoms_ok:
  "0 \<le> a \<Longrightarrow> b \<le> 25 \<Longrightarrow>
   append_phantoms [a..b] cs = (None, cs @ map (\<lambda>i. phantom (letter (nat i))) [a..b])"
proof (induction a b arbitrary: cs rule: upto.induct)
  case (1 i j)
  show ?case
  proof (cases "i \<le> j")
    case True
    then have u: "[i..j] = i # [i + 1..j]" by (simp add: upto_rec1)
    have g: "get_charform i = Inr (letter (nat i))"
      using 1(2,3) True by (intro get_charform_letter) auto
    show ?thesis
      using 1(1)[OF True, of "cs @ [phantom (letter (nat i))]"] 1(2,3)
      by (simp add: u g phantom_def)
  next
    case False
    then show ?thesis by simp
  qed
qed

lemma handle_table_CELL_BEG:
  assumes "1 < spn" and "0 \<le> curcol st - spn" and "curcol st - 1 \<le> 25"
  shows "handle_table text CELL_BEG spn st =
     (None, st\<lparr>textmem := [], curcol_char := letter (nat (curcol st - 1)),
        tabrow := (tabrow st)\<lparr>cells := cells (tabrow st)
            @ map (\<lambda>i. phantom (letter (nat i))) [curcol st - spn..curcol st - 2]\<rparr>,
        tabcell := \<lparr>colchar = letter (nat (curcol st - 1)), span = spn, head = text,
                    content = []\<rparr>\<rparr>)"
proof -
  have g: "get_charform (curcol st - 1) = Inr (letter (nat (curcol st - 1)))"
    using assms by (intro get_charform_letter) auto
  have p: "append_phantoms [curcol st - spn..curcol st - 2] cs =
      (None, cs @ map (\<lambda>i. phantom (letter (nat i))) [curcol st - spn..curcol st - 2])" for cs
    using assms by (intro append_phantoms_ok) auto
  have e: "curcol st - 1 - 1 = curcol st - 2" by simp
  show ?thesis
    using assms(1) by (simp add: Let_def g p e)
qed

lemma emit_CELL_BEG_phantoms:
  assumes "in_table st" and "1 < spn" and "0 \<le> curcol st - spn" and "curcol st - 1 \<le> 25"
  shows "\<exists>st'. emit text level CELL_BEG spn st = (None, st')
     \<and> cells (tabrow st') = cells (tabrow st)
          @ map (\<lambda>col. phantom (letter (nat col))) [curcol st - spn..curcol st - 2]
     \<and> length [curcol st - spn..curcol st - 2] = nat (spn - 1)
     \<and> colchar (tabcell st') = letter (nat (curcol st - 1))
     \<and> span (tabcell st') = spn"
proof -
  have e: "emit text level CELL_BEG spn st = handle_table tx CELL_BEG spn st"
    if "tx = (if level \<noteq> 0 then concat (replicate (nat level) ''  '') @ text else text)" for tx
    using assms(1) that by (simp only: emit_def Let_def) simp
  have n: "length [curcol st - spn..curcol st - 2] = nat (spn - 1)"
    using assms(2) by simp
  show ?thesis
    unfolding e[OF refl] handle_table_CELL_BEG[OF assms(2,3,4)]
    using n by simp
qed

lemma routed_cell_begin_example:
  "map colchar (cells (tabrow (snd (emit ''l'' 0 CELL_BEG 3 (span3_begun\<lparr>curcol := 3\<rparr>))))) = ''ab''
   \<and> map span (cells (tabrow (snd (emit ''l'' 0 CELL_BEG 3 (span3_begun\<lparr>curcol := 3\<rparr>))))) = [0, 0]
   \<and> colchar (tabcell (snd (emit ''l'' 0 CELL_BEG 3 (span3_begun\<lparr>curcol := 3\<rparr>)))) = CHR ''c''
   \<and> span (tabcell (snd (emit ''l'' 0 CELL_BEG 3 (span3_begun\<lparr>curcol := 3\<rparr>)))) = 3"
  by code_simp

text \<open>
  Claim C4 does not hold of the code. The branch of \<open>handle_table\<close> for \<open>CELL_BEG\<close> appends
  the \<open>s - 1\<close> phantom cells (lemma \<open>emit_CELL_BEG_phantoms\<close>), but \<open>start_cell\<close> never
  raises that event for a span above 1: its call \<open>self.emit(text, CELL_BEG, span)\<close> binds
  the span to \<open>tab_state\<close>. For the row of the claim, one cell of span 3 in a table of
  three columns, the span 3 is the constant \<open>ROW_BEG\<close>: \<open>start_cell\<close> replaces the row by
  an empty one, no phantom cell and no real cell is made, and the texts of all events of
  the row are left in \<open>textmem\<close>.
\<close>

theorem start_cell_span3_no_phantoms:
  "in_table span3_begun
   \<and> start_cell plain_style 3 span3_begun =
       handle_table ([bslash] @ ''multicolumn{3}{l}'') ROW_BEG 1
         (span3_begun\<lparr>colspan := 3, curcol := 3\<rparr>)
   \<and> fst span3_row = None
   \<and> cells (tabrow (snd span3_row)) = []
   \<and> tabcell (snd span3_row) = tabcell fresh_doc
   \<and> rows (tabmem (snd span3_row)) = []
   \<and> length (textmem (snd span3_row)) = 7"
  by code_simp

section \<open>Repacking a row of multi-row cells\<close>




lemma py_max_Nil: "py_max [] = Inl ValueError"
  by (simp add: py_max_def)

lemma upto_map_int: "[0..int k - 1] = map int [0..<k]"
proof (induction k)
  case 0
  then show ?case by simp
next
  case (Suc k)
  have "[0..int (Suc k) - 1] = [0..int k - 1] @ [int k]"
    using upto_rec2[of 0 "int k"] by simp
  then show ?case using Suc by simp
qed














lemma py_replace_absent:
  "c \<notin> set s \<Longrightarrow> py_replace [c] new s = s"
proof (induction s)
  case Nil
  then show ?case by (subst py_replace.simps) simp
next
  case (Cons a s)
  then show ?case by (subst py_replace.simps) (auto simp: startswith_def)
qed


lemma py_join_set: "set (py_join sep xs) \<subseteq> set sep \<union> (\<Union>x\<in>set xs. set x)"
  by (induction sep xs rule: py_join.induct) auto



lemma py_replace_single:
  "py_replace [a] new s = concat (map (\<lambda>c. if c = a then new else [c]) s)"
proof (induction s)
  case Nil
  then show ?case by (subst py_replace.simps) simp
next
  case (Cons c s)
  then show ?case by (subst py_replace.simps) (simp add: startswith_def)
qed













text \<open>
  Claim C10. When the row holds exactly one cell and its content is empty, the cell is
  deleted by the trailing-placeholder rule, \<open>max\<close> is taken over the empty list and
  \<open>repack_row\<close> raises ValueError: no row is appended and nothing is written; only the
  deleted cell and the decremented column count remain of the call.
\<close>

theorem repack_row_single_empty_cell:
  assumes "cells (tabrow st) = [c]" and "content c = []"
  shows "repack_row st =
     (Some ValueError, st\<lparr>tabrow := (tabrow st)\<lparr>cells := []\<rparr>, numcols := numcols st - 1\<rparr>)"
  using assms by (simp add: repack_row_def bare_contents_def py_max_Nil)


theorem repack_row_single_empty_cell_witness:
  "cells (tabrow single_empty_example) =
     [\<lparr>colchar = CHR ''a'', span = 1, head = ''l'', content = []\<rparr>]
   \<and> content \<lparr>colchar = CHR ''a'', span = 1, head = ''l'', content = []\<rparr> = []
   \<and> fst (repack_row single_empty_example) = Some ValueError
   \<and> rows (tabmem (snd (repack_row single_empty_example))) = []"
  using repack_row_single_empty_cell[of single_empty_example
      "\<lparr>colchar = CHR ''a'', span = 1, head = ''l'', content = []\<rparr>"]
  by (simp add: single_empty_example_def fresh_doc_def new_TabMem_def)

section \<open>The order of the width-negotiation instructions\<close>

lemma measure_cell_no_pass:
  "measure_cell pw col_num row = (err, row', out) \<Longrightarrow> filter is_pass out = []"
  by (auto simp: measure_cell_def Let_def split: sum.splits if_splits pyval.splits prod.splits option.splits)

lemma measure_rows_no_pass:
  "measure_rows pw col_num rws = (err, rws', out) \<Longrightarrow> filter is_pass out = []"
proof (induction rws arbitrary: err rws' out)
  case Nil
  then show ?case by simp
next
  case (Cons row rws)
  obtain e1 r1 o1 where m: "measure_cell pw col_num row = (e1, r1, o1)"
    by (cases "measure_cell pw col_num row") auto
  have f1: "filter is_pass o1 = []" using measure_cell_no_pass[OF m] .
  show ?case
  proof (cases e1)
    case None
    obtain e2 r2 o2 where m2: "measure_rows pw col_num rws = (e2, r2, o2)"
      by (cases "measure_rows pw col_num rws") auto
    have "filter is_pass o2 = []" using Cons.IH[OF m2] .
    then show ?thesis using Cons.prems m None m2 f1 by auto
  next
    case (Some e)
    then show ?thesis using Cons.prems m f1 by auto
  qed
qed

lemma get_charform_nat: "get_charform (int i) = Inr c \<Longrightarrow> c = letter i \<and> i < 26"
  using get_charform_letter[of "int i"] get_charform_too_big[of "int i"]
  by (cases "int i \<le> 25") auto

lemma first_pass_out:
  "first_pass pw (map int is) rws = (None, rws', chars, out) \<Longrightarrow>
   filter is_pass out = map GrColsFirstFix chars \<and> chars = map letter is \<and> (\<forall>i\<in>set is. i < 26)"
proof (induction "is" arbitrary: rws rws' chars out)
  case Nil
  then show ?case by simp
next
  case (Cons i "is")
  from Cons.prems obtain c where g: "get_charform (int i) = Inr c"
    by (cases "get_charform (int i)") auto
  obtain e1 r1 o1 where m: "measure_rows pw (int i) rws = (e1, r1, o1)"
    by (cases "measure_rows pw (int i) rws") auto
  have e1: "e1 = None" using Cons.prems g m by (cases e1) auto
  obtain e2 r2 c2 o2 where f: "first_pass pw (map int is) r1 = (e2, r2, c2, o2)"
    by (cases "first_pass pw (map int is) r1") auto
  have e2: "e2 = None" "rws' = r2" "chars = c # c2" "out = o1 @ [GrColsFirstFix c] @ o2"
    using Cons.prems g m e1 f by auto
  have ih: "filter is_pass o2 = map GrColsFirstFix c2 \<and> c2 = map letter is \<and> (\<forall>i\<in>set is. i < 26)"
    using Cons.IH[of r1 r2 c2 o2] f e2 by simp
  show ?case
    using ih e2 measure_rows_no_pass[OF m] get_charform_nat[OF g] by simp
qed

lemma span_cells_no_pass:
  "span_cells cs g = (err, g', out) \<Longrightarrow> filter is_pass out = []"
proof (induction cs arbitrary: g err g' out)
  case Nil
  then show ?case by simp
next
  case (Cons cell cs)
  then show ?case
    by (auto split: if_splits sum.splits prod.splits)
qed

lemma span_rows_no_pass:
  "span_rows rws g = (err, g', out) \<Longrightarrow> filter is_pass out = []"
proof (induction rws arbitrary: g err g' out)
  case Nil
  then show ?case by simp
next
  case (Cons row rws)
  then show ?case
    by (auto split: option.splits prod.splits dest: span_cells_no_pass)
qed

lemma upto_nat: "[0..n - 1] = map int [0..<nat n]"
proof (cases "0 \<le> n")
  case True
  then show ?thesis using upto_map_int[of "nat n"] by simp
next
  case False
  then show ?thesis by simp
qed

lemma filter_fix_passes: "filter is_pass (fix_passes cols) = fix_passes cols"
  by (simp add: fix_passes_def filter_map comp_def)

lemma four_passes_on_return:
  assumes "calc_latex_widths st = (None, st')"
  shows "\<exists>out. backend st' = backend st @ out
     \<and> filter is_pass out = four_passes (map letter [0..<nat (numcols st)])
     \<and> length (map letter [0..<nat (numcols st)]) = nat (numcols st)
     \<and> distinct (map letter [0..<nat (numcols st)])"
proof -
  obtain e1 rws chars o1 where
    f: "first_pass (pict_width st) (map int [0..<nat (numcols st)]) (rows (tabmem st)) = (e1, rws, chars, o1)"
    by (cases "first_pass (pict_width st) (map int [0..<nat (numcols st)]) (rows (tabmem st))") auto
  have e1: "e1 = None" using assms f by (cases e1) (auto simp: calc_latex_widths_def upto_nat)
  obtain e2 g o2 where s: "span_rows rws (str_incr MULTCOL_COUNT_BASE) = (e2, g, o2)"
    by (cases "span_rows rws (str_incr MULTCOL_COUNT_BASE)") auto
  have b: "backend st' = backend st @ (o1 @ fix_passes chars @ o2)"
    using assms f e1 s by (auto simp: calc_latex_widths_def upto_nat)
  have fp: "filter is_pass o1 = map GrColsFirstFix chars" "chars = map letter [0..<nat (numcols st)]"
    "\<forall>i\<in>set [0..<nat (numcols st)]. i < 26"
    using first_pass_out[OF f[unfolded e1]] by simp_all
  have d: "distinct (map letter [0..<nat (numcols st)])"
    using fp(3) by (auto simp: distinct_map inj_on_def dest: letter_inj)
  have "filter is_pass (o1 @ fix_passes chars @ o2) = four_passes chars"
    using fp(1) span_rows_no_pass[OF s]
    by (simp add: filter_fix_passes) (simp add: fix_passes_def four_passes_def)
  then show ?thesis using b fp(2) d by auto
qed


lemma keeps_refl: "keeps i r r"
  by (simp add: keeps_def)

lemma keeps_update:
  "i < length (cells r) \<Longrightarrow>
   keeps i r (r\<lparr>cells := (cells r)[i := (cells r ! i)\<lparr>content := v\<rparr>]\<rparr>)"
  by (simp add: keeps_def map_update list_update_same_conv)

lemma measure_cell_ok:
  assumes "i < length (cells row)" and "cell_ok (cells row ! i)"
  shows "\<exists>row' out. measure_cell pw (int i) row = (None, row', out) \<and> keeps i row row'"
proof -
  have p: "py_index (cells row) (int i) = Inr (cells row ! i)"
    using assms(1) by (simp add: py_index_def)
  define cell where "cell = cells row ! i"
  have np: "\<not> startswith (content cell) (bslash # ''grmkpicture'')"
    using assms(2) by (simp add: cell_ok_def cell_def)
  have g: "\<exists>c. get_charform (get_numform (colchar cell) - span cell + 1) = Inr c"
    if "1 < span cell"
    using that assms(2) get_charform_letter[of "get_numform (colchar cell) - span cell + 1"]
    by (simp add: cell_ok_def cell_def)
  show ?thesis
  proof (cases "1 < span cell")
    case True
    then obtain c where "get_charform (get_numform (colchar cell) - span cell + 1) = Inr c"
      using g by blast
    then show ?thesis
      using True np assms(1) keeps_update[OF assms(1)]
      by (simp add: measure_cell_def p cell_def[symmetric] py_position_def)
  next
    case False
    then show ?thesis
      using np assms(1) keeps_update[OF assms(1)] keeps_refl
      by (simp add: measure_cell_def p cell_def[symmetric] py_position_def)
  qed
qed

lemma measure_rows_ok:
  assumes "\<forall>row\<in>set rws. i < length (cells row) \<and> cell_ok (cells row ! i)"
  shows "\<exists>rws' out. measure_rows pw (int i) rws = (None, rws', out) \<and> list_all2 (keeps i) rws rws'"
  using assms
proof (induction rws)
  case Nil
  then show ?case by simp
next
  case (Cons row rws)
  obtain row' o1 where m: "measure_cell pw (int i) row = (None, row', o1)" "keeps i row row'"
    using measure_cell_ok[of i row pw] Cons.prems by auto
  obtain rws' o2 where r: "measure_rows pw (int i) rws = (None, rws', o2)"
    "list_all2 (keeps i) rws rws'"
    using Cons by auto
  show ?case using m r by simp
qed


lemma keeps_same_shape: "keeps i r r' \<Longrightarrow> same_shape r r'"
  by (simp add: keeps_def same_shape_def)

lemma same_shape_trans: "same_shape a b \<Longrightarrow> same_shape b c \<Longrightarrow> same_shape a c"
  by (simp add: same_shape_def)

lemma first_pass_ok:
  assumes "distinct is"
    and "\<forall>i\<in>set is. i < 26 \<and> (\<forall>row\<in>set rws. i < length (cells row) \<and> cell_ok (cells row ! i))"
  shows "\<exists>rws' chars out. first_pass pw (map int is) rws = (None, rws', chars, out)
           \<and> list_all2 same_shape rws rws'"
  using assms
proof (induction "is" arbitrary: rws)
  case Nil
  have "list_all2 same_shape rws rws"
    by (simp add: list_all2_conv_all_nth same_shape_def)
  then show ?case by simp
next
  case (Cons i "is")
  have g: "get_charform (int i) = Inr (letter i)"
    using Cons.prems(2) get_charform_letter[of "int i"] by simp
  obtain rws1 o1 where m: "measure_rows pw (int i) rws = (None, rws1, o1)"
    and k: "list_all2 (keeps i) rws rws1"
    using measure_rows_ok[of rws i pw] Cons.prems(2) by auto
  have ok1: "\<forall>j\<in>set is. j < 26
      \<and> (\<forall>row\<in>set rws1. j < length (cells row) \<and> cell_ok (cells row ! j))"
  proof (intro ballI conjI)
    fix j assume j: "j \<in> set is"
    then show "j < 26" using Cons.prems(2) by simp
    have ji: "j \<noteq> i" using j Cons.prems(1) by auto
    fix row' assume "row' \<in> set rws1"
    then obtain n where n: "n < length rws1" "rws1 ! n = row'"
      by (auto simp: in_set_conv_nth)
    then have kn: "keeps i (rws ! n) row'" and nl: "n < length rws"
      using k by (auto simp: list_all2_conv_all_nth)
    have "rws ! n \<in> set rws" using nl by simp
    then have "j < length (cells (rws ! n))" "cell_ok (cells (rws ! n) ! j)"
      using Cons.prems(2) j by auto
    then show "j < length (cells row')" "cell_ok (cells row' ! j)"
      using kn ji by (auto simp: keeps_def)
  qed
  obtain rws' chars out where f: "first_pass pw (map int is) rws1 = (None, rws', chars, out)"
    and s: "list_all2 same_shape rws1 rws'"
    using Cons.IH[of rws1] Cons.prems(1) ok1 by auto
  have "list_all2 same_shape rws rws1"
    using k by (rule list_all2_mono) (rule keeps_same_shape)
  then have "list_all2 same_shape rws rws'"
    using s by (rule list_all2_trans[rotated]) (rule same_shape_trans)
  then show ?case using g m f by simp
qed

lemma next_gen_after:
  assumes "j < 17576"
  shows "next_gen (after_nexts j (str_incr ''aaa'')) =
     (Inr (base26 j), after_nexts (Suc j) (str_incr ''aaa''))"
proof -
  have "fst (next_gen (after_nexts j (str_incr ''aaa''))) = Inr (base26 j)"
    using nth_next_str_incr[OF assms] by (simp add: nth_next_after)
  moreover have "snd (next_gen (after_nexts j (str_incr ''aaa''))) =
      after_nexts (Suc j) (str_incr ''aaa'')"
    by (simp only: after_nexts_Suc)
  ultimately show ?thesis by (simp add: prod_eq_iff)
qed

lemma span_cells_ok:
  assumes "\<forall>cell\<in>set cs. start_ok cell" and "j + spanning cs \<le> 17576"
  shows "\<exists>out. span_cells cs (after_nexts j (str_incr ''aaa'')) =
     (None, after_nexts (j + spanning cs) (str_incr ''aaa''), out)"
  using assms
proof (induction cs arbitrary: j)
  case Nil
  then show ?case by (simp add: spanning_def)
next
  case (Cons cell cs)
  show ?case
  proof (cases "1 < span cell")
    case True
    have j: "j < 17576" and j': "Suc j + spanning cs \<le> 17576"
      using Cons.prems(2) True by (simp_all add: spanning_def)
    obtain c where g: "get_charform (get_numform (colchar cell) - span cell + 1) = Inr c"
      using Cons.prems(1) True
        get_charform_letter[of "get_numform (colchar cell) - span cell + 1"]
      by (auto simp: start_ok_def)
    obtain out where "span_cells cs (after_nexts (Suc j) (str_incr ''aaa'')) =
        (None, after_nexts (Suc j + spanning cs) (str_incr ''aaa''), out)"
      using Cons.IH[of "Suc j"] Cons.prems(1) j' by auto
    then show ?thesis
      using True g next_gen_after[OF j]
      by (simp add: spanning_def del: after_nexts.simps)
  next
    case False
    then show ?thesis
      using Cons.IH[of j] Cons.prems by (simp add: spanning_def)
  qed
qed

lemma span_rows_ok:
  assumes "\<forall>row\<in>set rws. \<forall>cell\<in>set (cells row). start_ok cell"
    and "j + spanning (concat (map cells rws)) \<le> 17576"
  shows "\<exists>g out. span_rows rws (after_nexts j (str_incr ''aaa'')) = (None, g, out)"
  using assms
proof (induction rws arbitrary: j)
  case Nil
  then show ?case by simp
next
  case (Cons row rws)
  have sp: "spanning (concat (map cells (row # rws))) =
      spanning (cells row) + spanning (concat (map cells rws))"
    by (simp add: spanning_def)
  obtain o1 where c: "span_cells (cells row) (after_nexts j (str_incr ''aaa'')) =
      (None, after_nexts (j + spanning (cells row)) (str_incr ''aaa''), o1)"
    using span_cells_ok[of "cells row" j] Cons.prems sp by auto
  obtain g o2 where "span_rows rws (after_nexts (j + spanning (cells row)) (str_incr ''aaa''))
      = (None, g, o2)"
    using Cons.IH[of "j + spanning (cells row)"] Cons.prems sp by auto
  then show ?case using c by (simp del: after_nexts.simps)
qed

lemma same_shape_start_ok:
  assumes "same_shape r r'" and "\<forall>cell\<in>set (cells r). start_ok cell"
  shows "\<forall>cell\<in>set (cells r'). start_ok cell"
proof
  fix cell assume "cell \<in> set (cells r')"
  then obtain n where n: "n < length (cells r')" "cells r' ! n = cell"
    by (auto simp: in_set_conv_nth)
  have "length (map span (cells r')) = length (map span (cells r))"
    using assms(1) by (simp only: same_shape_def)
  then have l: "length (cells r') = length (cells r)" by simp
  have "map colchar (cells r') ! n = map colchar (cells r) ! n"
    "map span (cells r') ! n = map span (cells r) ! n"
    using assms(1) by (simp_all only: same_shape_def)
  then have "colchar cell = colchar (cells r ! n)" "span cell = span (cells r ! n)"
    using n l by simp_all
  moreover have "start_ok (cells r ! n)" using assms(2) n l by simp
  ultimately show "start_ok cell" by (simp add: start_ok_def)
qed

lemma same_shape_spanning:
  assumes "same_shape r r'"
  shows "spanning (cells r') = spanning (cells r)"
proof -
  have h: "spanning cs = length (filter (\<lambda>s. 1 < s) (map span cs))" for cs
    by (simp add: spanning_def filter_map comp_def)
  have "spanning (cells r') = length (filter (\<lambda>s. 1 < s) (map span (cells r')))"
    by (rule h)
  also have "map span (cells r') = map span (cells r)"
    using assms by (simp only: same_shape_def)
  also have "length (filter (\<lambda>s. 1 < s) (map span (cells r))) = spanning (cells r)"
    by (rule h[symmetric])
  finally show ?thesis .
qed

lemma same_shape_rows_spanning:
  "list_all2 same_shape rws rws' \<Longrightarrow>
   spanning (concat (map cells rws')) = spanning (concat (map cells rws))"
proof (induction rws rws' rule: list_all2_induct)
  case Nil
  then show ?case by simp
next
  case (Cons r rs r' rs')
  have "spanning (xs @ ys) = spanning xs + spanning ys" for xs ys
    by (simp add: spanning_def)
  then show ?case using Cons same_shape_spanning[of r r'] by simp
qed

lemma calc_latex_widths_returns:
  assumes "well_formed st"
  shows "fst (calc_latex_widths st) = None"
proof -
  define n where "n = nat (numcols st)"
  have n26: "n \<le> 26" using assms unfolding well_formed_def n_def by linarith
  have cols: "\<forall>i\<in>set [0..<n]. i < 26
      \<and> (\<forall>row\<in>set (rows (tabmem st)). i < length (cells row) \<and> cell_ok (cells row ! i))"
  proof (intro ballI conjI)
    fix i assume i: "i \<in> set [0..<n]"
    then show "i < 26" using n26 by simp
    fix row assume r: "row \<in> set (rows (tabmem st))"
    then have "numcols st \<le> int (length (cells row))"
      using assms by (simp add: well_formed_def)
    then show l: "i < length (cells row)" using i by (simp add: n_def)
    then have "cells row ! i \<in> set (cells row)" by simp
    then show "cell_ok (cells row ! i)" using assms r by (simp add: well_formed_def)
  qed
  obtain rws' chars out where
    f: "first_pass (pict_width st) (map int [0..<n]) (rows (tabmem st)) = (None, rws', chars, out)"
    and s: "list_all2 same_shape (rows (tabmem st)) rws'"
    using first_pass_ok[of "[0..<n]" "rows (tabmem st)" "pict_width st"] cols by auto
  have so: "\<forall>row\<in>set (rows (tabmem st)). \<forall>cell\<in>set (cells row). start_ok cell"
    using assms by (auto simp: well_formed_def cell_ok_def start_ok_def)
  have so': "\<forall>row\<in>set rws'. \<forall>cell\<in>set (cells row). start_ok cell"
  proof
    fix row' assume "row' \<in> set rws'"
    then obtain k where k: "k < length rws'" "rws' ! k = row'"
      by (auto simp: in_set_conv_nth)
    then have ss: "same_shape (rows (tabmem st) ! k) row'" and kl: "k < length (rows (tabmem st))"
      using s by (auto simp: list_all2_conv_all_nth)
    have "rows (tabmem st) ! k \<in> set (rows (tabmem st))" using kl by simp
    then have "\<forall>cell\<in>set (cells (rows (tabmem st) ! k)). start_ok cell"
      using so by blast
    then show "\<forall>cell\<in>set (cells row'). start_ok cell"
      by (rule same_shape_start_ok[OF ss])
  qed
  have cnt: "0 + spanning (concat (map cells rws')) \<le> 17576"
    using assms same_shape_rows_spanning[OF s] by (simp add: well_formed_def spanning_def)
  obtain g o2 where "span_rows rws' (after_nexts 0 (str_incr ''aaa'')) = (None, g, o2)"
    using span_rows_ok[OF so' cnt] by blast
  then show ?thesis
    using f by (simp add: calc_latex_widths_def upto_nat n_def MULTCOL_COUNT_BASE_def)
qed


lemma table_example_returns: "fst (calc_latex_widths table_example) = None"
  by code_simp

lemma table_example_backend: "backend table_example = []"
  by (simp add: table_example_def fresh_doc_def)

lemma table_example_passes:
  "four_passes (map letter [0..<nat (numcols table_example)]) =
       [GrColsFirstFix (CHR ''a''), GrColsFirstFix (CHR ''b''), GrDivideLength,
        GrColsSecondFix (CHR ''a''), GrColsSecondFix (CHR ''b''), GrDivideLength,
        GrColsThirdFix (CHR ''a''), GrColsThirdFix (CHR ''b''), GrDivideLength,
        GrColsFourthFix (CHR ''a''), GrColsFourthFix (CHR ''b'')]"
  by code_simp

lemma table_example_well_formed: "well_formed table_example"
  by code_simp

text \<open>
  On every well-formed buffered table \<open>calc_latex_widths\<close> returns normally,
  and whenever it returns normally on a table with \<open>n\<close> declared columns, the
  width-negotiation instructions among its writes are, in this order: one
  \<open>\grcolsfirstfix\<close> for each of the \<open>n\<close> column letters, then \<open>\grdividelength\<close> and one
  \<open>\grcolssecondfix\<close> per column, then \<open>\grdividelength\<close> and one \<open>\grcolsthirdfix\<close> per
  column, then \<open>\grdividelength\<close> and one \<open>\grcolsfourthfix\<close> per column. The column
  letters are pairwise distinct.
\<close>

lemma calc_latex_widths_four_passes:
  "(well_formed st \<longrightarrow> fst (calc_latex_widths st) = None)
   \<and> (fst (calc_latex_widths st) = None \<longrightarrow>
        (\<exists>out. backend (snd (calc_latex_widths st)) = backend st @ out
           \<and> filter is_pass out = four_passes (map letter [0..<nat (numcols st)])
           \<and> length (map letter [0..<nat (numcols st)]) = nat (numcols st)
           \<and> distinct (map letter [0..<nat (numcols st)])))"
proof (intro conjI impI)
  assume "well_formed st"
  then show "fst (calc_latex_widths st) = None" by (rule calc_latex_widths_returns)
next
  assume "fst (calc_latex_widths st) = None"
  then have "calc_latex_widths st = (None, snd (calc_latex_widths st))"
    by (cases "calc_latex_widths st") simp
  then show "\<exists>out. backend (snd (calc_latex_widths st)) = backend st @ out
           \<and> filter is_pass out = four_passes (map letter [0..<nat (numcols st)])
           \<and> length (map letter [0..<nat (numcols st)]) = nat (numcols st)
           \<and> distinct (map letter [0..<nat (numcols st)])"
    by (rule four_passes_on_return)
qed

lemma calc_latex_widths_four_passes_example:
  "well_formed table_example \<and> fst (calc_latex_widths table_example) = None
   \<and> filter is_pass (backend (snd (calc_latex_widths table_example))) =
       [GrColsFirstFix (CHR ''a''), GrColsFirstFix (CHR ''b''), GrDivideLength,
        GrColsSecondFix (CHR ''a''), GrColsSecondFix (CHR ''b''), GrDivideLength,
        GrColsThirdFix (CHR ''a''), GrColsThirdFix (CHR ''b''), GrDivideLength,
        GrColsFourthFix (CHR ''a''), GrColsFourthFix (CHR ''b'')]"
proof -
  have r: "fst (calc_latex_widths table_example) = None"
    using calc_latex_widths_four_passes[of table_example] table_example_well_formed by blast
  obtain out where "backend (snd (calc_latex_widths table_example)) = backend table_example @ out"
    and "filter is_pass out = four_passes (map letter [0..<nat (numcols table_example)])"
    using calc_latex_widths_four_passes[of table_example] r by blast
  then have "filter is_pass (backend (snd (calc_latex_widths table_example))) =
      four_passes (map letter [0..<nat (numcols table_example)])"
    by (simp add: table_example_backend)
  then show ?thesis
    using r table_example_well_formed by (simp only: table_example_passes)
qed

text \<open>
  Claim C1 does not hold of every buffered table. For a cell that holds a picture the
  first pass writes \<open>\setlength{\grpictsize}{...}\<close> with \<open>''.join\<close> over \<open>self.pict_width\<close>
  itself, where the width reduction of \<open>repack_row\<close> and \<open>start_paragraph\<close> join
  \<open>repr(self.pict_width)\<close>. \<open>pict_width\<close> is a number (the class default 0, or the \<open>x\<close>
  given to \<open>add_media\<close>), so the join raises TypeError: on a table whose first cell is a
  picture \<open>calc_latex_widths\<close> stops before it has written any instruction, and none of
  the four passes is made.
\<close>

theorem picture_cell_raises_TypeError:
  "fst (calc_latex_widths picture_table) = Some TypeError
   \<and> backend (snd (calc_latex_widths picture_table)) = []
   \<and> filter is_pass (backend (snd (calc_latex_widths picture_table))) \<noteq> four_passes ''a''"
  by code_simp

section \<open>What table events write\<close>

lemma then_do_backend:
  assumes "\<And>s. backend (snd (f s)) = backend s"
  shows "backend (snd (then_do r f)) = backend (snd r)"
  using assms by (cases r) (auto simp: then_do_def split: option.splits)

lemma finish_repack_backend: "backend (snd (finish_repack st)) = backend st"
  by (simp add: finish_repack_def split: list.splits)

lemma repack_rows_backend:
  "\<exists>w. backend (snd (repack_rows n tcont st)) = backend st @ w
     \<and> (w = [] \<or> (pict_in_table st \<and> w = [GrAddToTabWidth (pict_width st)]))"
  by (auto simp: repack_rows_def Let_def backend_write_def finish_repack_backend
      split: prod.splits option.splits sum.splits)

lemma repack_row_backend:
  "\<exists>w. backend (snd (repack_row st)) = backend st @ w
     \<and> (w = [] \<or> (pict_in_table st \<and> w = [GrAddToTabWidth (pict_width st)]))"
proof (cases "cells (tabrow st) = []")
  case True
  then show ?thesis by (simp add: repack_row_def)
next
  case False
  define st1 where "st1 = (if content (last (cells (tabrow st))) = []
                   then st\<lparr>tabrow := (tabrow st)\<lparr>cells := butlast (cells (tabrow st))\<rparr>,
                           numcols := numcols st - 1\<rparr>
                   else st)"
  have s1: "backend st1 = backend st" "pict_in_table st1 = pict_in_table st"
    "pict_width st1 = pict_width st"
    by (simp_all add: st1_def)
  show ?thesis
  proof (cases "py_max (map length (bare_contents (cells (tabrow st1))))")
    case (Inl e)
    then show ?thesis
      using False by (simp add: repack_row_def Let_def st1_def[symmetric] s1)
  next
    case (Inr n)
    then have "repack_row st =
        repack_rows n (transp_cont n (cols_equ_len n (bare_contents (cells (tabrow st1))))) st1"
      using False by (simp add: repack_row_def Let_def st1_def[symmetric])
    then show ?thesis
      using repack_rows_backend[of n _ st1] by (simp add: s1)
  qed
qed

lemma handle_table_backend:
  assumes "kind \<noteq> TAB_END"
  shows "\<exists>w. backend (snd (handle_table text kind spn st)) = backend st @ w
     \<and> event_writes kind st w"
proof (cases kind)
  case CELL_BEG
  then show ?thesis
    by (auto simp: event_writes_def Let_def split: sum.splits prod.splits option.splits)
next
  case CELL_TEXT
  then show ?thesis by (simp add: event_writes_def)
next
  case CELL_END
  then show ?thesis by (simp add: event_writes_def Let_def)
next
  case ROW_BEG
  then show ?thesis by (simp add: event_writes_def)
next
  case ROW_END
  show ?thesis
  proof (cases "in_multrow_cell st")
    case True
    define st1 where "st1 = st\<lparr>tabrow := (tabrow st)\<lparr>addit := text, tail := concat (textmem st)\<rparr>\<rparr>"
    have h: "handle_table text ROW_END spn st = repack_row st1"
      using True by (simp add: st1_def Let_def)
    have s: "backend st1 = backend st" "pict_in_table st1 = pict_in_table st"
      "pict_width st1 = pict_width st"
      by (simp_all add: st1_def)
    show ?thesis
      using repack_row_backend[of st1] True
      unfolding ROW_END h s by (auto simp: event_writes_def)
  next
    case False
    then show ?thesis using ROW_END by (simp add: event_writes_def Let_def)
  qed
next
  case TAB_BEG
  then show ?thesis by (simp add: event_writes_def backend_write_def)
next
  case TAB_END
  then show ?thesis using assms by simp
qed

text \<open>
  Claim C6, as the code has it. While rendering is inside a table, a write routed as a
  table event other than \<open>TAB_END\<close> leaves the backend as it is, with two exceptions:
  \<open>TAB_BEG\<close> writes the single initialisation instruction \<open>\grinittab\<close>, and a \<open>ROW_END\<close>
  in multi-row-cell mode with a pending picture writes at most the single width-reduction
  instruction. Cells and rows are only buffered; their LaTeX is written at \<open>TAB_END\<close>.
\<close>

theorem emit_in_table_writes:
  assumes "in_table st" and "kind \<noteq> TAB_END"
  shows "\<exists>w. backend (snd (emit text level kind spn st)) = backend st @ w
     \<and> (w = []
        \<or> (kind = TAB_BEG \<and> w = [GrInitTab (numcols st)])
        \<or> (kind = ROW_END \<and> in_multrow_cell st \<and> pict_in_table st
            \<and> w = [GrAddToTabWidth (pict_width st)]))"
  using assms(1) handle_table_backend[OF assms(2), of _ spn st]
  by (simp add: emit_def Let_def event_writes_def)

theorem emit_in_table_writes_witness:
  "in_table (fresh_doc\<lparr>in_table := True, numcols := 2\<rparr>) \<and> CELL_TEXT \<noteq> TAB_END
   \<and> backend (snd (emit ''Ann'' 0 CELL_TEXT 1 (fresh_doc\<lparr>in_table := True, numcols := 2\<rparr>)))
       = backend (fresh_doc\<lparr>in_table := True, numcols := 2\<rparr>)"
  using emit_in_table_writes[of "fresh_doc\<lparr>in_table := True, numcols := 2\<rparr>" CELL_TEXT
      "''Ann''" 0 1]
  by (simp add: fresh_doc_def)

text \<open>
  Claim C6 as stated fails: the table-opening event, routed as a table event while the
  document is inside a table, writes \<open>\grinittab\<close> to the backend at once.
\<close>

theorem emit_TAB_BEG_writes:
  "in_table (fresh_doc\<lparr>in_table := True, numcols := 2\<rparr>)
   \<and> backend (fresh_doc\<lparr>in_table := True, numcols := 2\<rparr>) = []
   \<and> backend (snd (emit ''{longtable}'' 0 TAB_BEG 1 (fresh_doc\<lparr>in_table := True, numcols := 2\<rparr>)))
       = [GrInitTab 2]"
  by (simp add: emit_def fresh_doc_def backend_write_def)

section \<open>Escaping\<close>

lemma concat_map_append:
  "concat (map f (xs @ ys)) = concat (map f xs) @ concat (map f ys)"
  by simp

lemma seven_Cons: "seven (c # s) = esc7 c @ seven s"
  by (simp add: seven_def text_of_def py_replace_single esc7_def)

lemma seven_esc7: "seven s = concat (map esc7 s)"
proof (induction s)
  case Nil
  then show ?case by (simp add: seven_def text_of_def py_replace_single)
next
  case (Cons c s)
  then show ?case by (simp add: seven_Cons)
qed

lemma latexescape_seven:
  "latexescape s = py_replace [0xE2, 0x2020, 0x2019]
                   (text_of (''$'' @ [bslash] @ ''longrightarrow$'')) (seven s)"
  by (simp add: latexescape_def seven_def Let_def)

lemma strip_token_lookup:
  assumes "map_of lookup c = Some t"
  shows "strip_token (map snd lookup) (t @ rest) = Some rest"
proof -
  have "(c, t) \<in> set lookup" using assms by (rule map_of_SomeD)
  then show ?thesis
    by (auto simp: lookup_def text_of_def startswith_def)
qed

lemma lookup_hd:
  assumes "map_of lookup c = Some t"
  shows "t \<noteq> [] \<and> hd t \<in> set reserved"
proof -
  have "(c, t) \<in> set lookup" using assms by (rule map_of_SomeD)
  then show ?thesis
    by (auto simp: lookup_def text_of_def reserved_def)
qed

lemma lookup_None: "map_of lookup c = None \<Longrightarrow> c \<notin> set reserved"
  by (auto simp: lookup_def text_of_def reserved_def split: if_splits)

lemma safe_text_escape: "safe_text (escape s)"
proof (induction s)
  case Nil
  then show ?case by (subst safe_text.simps) (simp add: escape_def)
next
  case (Cons c s)
  have e: "escape (c # s) = (case map_of lookup c of Some r \<Rightarrow> r | None \<Rightarrow> [c]) @ escape s"
    by (simp add: escape_def)
  show ?case
  proof (cases "map_of lookup c")
    case None
    then show ?thesis
      using Cons lookup_None[OF None] unfolding e
      by (subst safe_text.simps) simp
  next
    case (Some t)
    then show ?thesis
      using Cons lookup_hd[OF Some] strip_token_lookup[OF Some, of "escape s"] unfolding e
      by (subst safe_text.simps) (cases t, auto)
  qed
qed


lemma escape_Cons: "escape (c # s) = escape [c] @ escape s"
  by (simp add: escape_def)

lemma escape_concat: "escape s = concat (map (\<lambda>c. escape [c]) s)"
proof (induction s)
  case Nil
  then show ?case by (simp add: escape_def)
next
  case (Cons c s)
  then show ?case using escape_Cons[of c s] by simp
qed

lemma escape_reserved:
  "map (\<lambda>c. escape [c]) reserved =
     map text_of [[bslash] @ ''&'', [bslash] @ ''$'', [bslash] @ ''%'', [bslash] @ ''#'',
                  [bslash] @ ''_'', [bslash] @ ''{'', [bslash] @ ''}'', [bslash] @ ''~{}'',
                  [bslash] @ ''^{}'', [bslash] @ ''textbackslash{}'']"
  by code_simp

lemma escape_other: "c \<notin> set reserved \<Longrightarrow> escape [c] = [c]"
  by (simp add: escape_def lookup_def reserved_def text_of_def)

text \<open>
  Claim C5, as the code has it. \<open>escape\<close> works character by character: each of the
  reserved characters \<open>& $ % # _ { } ~ ^\<close> and backslash becomes its safe representation
  \<open>\&\<close>, \<open>\$\<close>, \<open>\%\<close>, \<open>\#\<close>, \<open>\_\<close>, \<open>\{\<close>, \<open>\}\<close>, \<open>\~{}\<close>, \<open>\^{}\<close>, \<open>\textbackslash{}\<close>, every
  other character is kept, and the output has no unescaped reserved character: it reads
  as a sequence of unreserved characters and safe representations. \<open>latexescape\<close>, the
  function that \<open>write_text\<close> uses, puts a backslash before each of \<open>& $ % # _ { }\<close> only;
  tilde, circumflex and backslash pass unchanged.
\<close>

theorem escape_covers_reserved:
  "safe_text (escape s)
   \<and> escape s = concat (map (\<lambda>c. escape [c]) s)
   \<and> map (\<lambda>c. escape [c]) reserved =
       map text_of [[bslash] @ ''&'', [bslash] @ ''$'', [bslash] @ ''%'', [bslash] @ ''#'',
                    [bslash] @ ''_'', [bslash] @ ''{'', [bslash] @ ''}'', [bslash] @ ''~{}'',
                    [bslash] @ ''^{}'', [bslash] @ ''textbackslash{}'']
   \<and> (\<forall>c. c \<notin> set reserved \<longrightarrow> escape [c] = [c])
   \<and> latexescape s =
       py_replace [0xE2, 0x2020, 0x2019] (text_of (''$'' @ [bslash] @ ''longrightarrow$''))
         (concat (map esc7 s))"
  using safe_text_escape[of s] escape_concat[of s] escape_reserved escape_other
    latexescape_seven[of s] seven_esc7[of s]
  by simp

theorem escape_covers_reserved_witness:
  "of_char (CHR ''5'') \<notin> set reserved
   \<and> escape (text_of ''5'') = text_of ''5''
   \<and> escape (text_of ''50%'') = text_of (''50'' @ [bslash] @ ''%'')
   \<and> safe_text (escape (text_of ''50%''))"
proof -
  have n: "of_char (CHR ''5'') \<notin> set reserved" by code_simp
  have t: "text_of ''5'' = [of_char (CHR ''5'')]" by (simp add: text_of_def)
  have v: "escape (text_of ''50%'') = text_of (''50'' @ [bslash] @ ''%'')" by code_simp
  have s: "safe_text (escape (text_of ''50%''))"
    and o: "\<forall>c. c \<notin> set reserved \<longrightarrow> escape [c] = [c]"
    using escape_covers_reserved[of "text_of ''50%''"] by blast+
  have "escape (text_of ''5'') = text_of ''5''"
    unfolding t using o n by blast
  then show ?thesis using n v s by blast
qed

text \<open>
  Claim C5 as stated fails for \<open>latexescape\<close>: a tilde of the input is not rewritten and
  stands unescaped in the output.
\<close>

theorem latexescape_keeps_tilde:
  "latexescape (text_of ''a~b'') = text_of ''a~b''
   \<and> \<not> safe_text (latexescape (text_of ''a~b''))"
  by code_simp

section \<open>The outcome of the four passes\<close>

lemmas macro_defs = grinittab_def grsetreqfull_def grsetreqpart_def grdividelength_def
  grtextneedwidth_def grcolsfirstfix_def grcolssecondfix_def grcolsthirdfix_def
  grcolsfourthfix_def grgetspanwidth_def

lemma fold_preserves:
  assumes "\<And>i T. i \<in> set xs \<Longrightarrow> P T \<Longrightarrow> P (exec env i T)" and "P T"
  shows "P (fold (exec env) xs T)"
  using assms by (induction xs arbitrary: T) auto

lemma exec_unset_or_final:
  "unset_or_final S T \<Longrightarrow> unset_or_final S (exec env i T)"
  by (cases i) (auto simp: unset_or_final_def macro_defs Let_def)

lemma firstfix_unset_or_final:
  "unset_or_final S T \<Longrightarrow> unset_or_final (insert c S) (exec env (GrColsFirstFix c) T)"
  by (auto simp: unset_or_final_def macro_defs Let_def)

lemma after_first_fits:
  "is_after_first i \<Longrightarrow> fits (exec env i T) = fits T"
  by (cases i) (auto simp: fits_def macro_defs Let_def)

lemma after_first_all_final:
  "is_after_first i \<Longrightarrow> all_final S T \<Longrightarrow> all_final S (exec env i T)"
  by (cases i) (auto simp: all_final_def macro_defs Let_def)

lemma secondfix_all_final:
  "fits T \<Longrightarrow> all_final S T \<Longrightarrow> all_final (insert c S) (exec env (GrColsSecondFix c) T)"
  by (auto simp: all_final_def fits_def macro_defs Let_def)

lemma fourthfix_all_final:
  "\<not> fits T \<Longrightarrow> unset_or_final {c} T \<Longrightarrow> all_final S T \<Longrightarrow>
   all_final (insert c S) (exec env (GrColsFourthFix c) T)"
  by (auto simp: all_final_def unset_or_final_def fits_def macro_defs Let_def)


lemma seconds_all_final:
  "fits T \<Longrightarrow> all_final S T \<Longrightarrow>
   all_final (S \<union> set cs) (fold (exec env) (map GrColsSecondFix cs) T)"
proof (induction cs arbitrary: T S)
  case Nil
  then show ?case by simp
next
  case (Cons c cs)
  have f: "fits (exec env (GrColsSecondFix c) T)"
    using Cons.prems(1) after_first_fits[of "GrColsSecondFix c" env T] by simp
  have a: "all_final (insert c S) (exec env (GrColsSecondFix c) T)"
    using Cons.prems by (rule secondfix_all_final)
  show ?case using Cons.IH[OF f a] by simp
qed

lemma fourths_all_final:
  "\<not> fits T \<Longrightarrow> unset_or_final U T \<Longrightarrow> set cs \<subseteq> U \<Longrightarrow> all_final S T \<Longrightarrow>
   all_final (S \<union> set cs) (fold (exec env) (map GrColsFourthFix cs) T)"
proof (induction cs arbitrary: T S)
  case Nil
  then show ?case by simp
next
  case (Cons c cs)
  have f: "\<not> fits (exec env (GrColsFourthFix c) T)"
    using Cons.prems(1) after_first_fits[of "GrColsFourthFix c" env T] by simp
  have u: "unset_or_final U (exec env (GrColsFourthFix c) T)"
    using Cons.prems(2) by (rule exec_unset_or_final)
  have "unset_or_final {c} T" using Cons.prems(2,3) by (auto simp: unset_or_final_def)
  then have a: "all_final (insert c S) (exec env (GrColsFourthFix c) T)"
    using Cons.prems(1,4) by (intro fourthfix_all_final)
  show ?case using Cons.IH[OF f u _ a] Cons.prems(3) by simp
qed

lemma measure_cell_kinds:
  "measure_cell pw col_num row = (err, row', out) \<Longrightarrow> \<forall>i\<in>set out. is_measure i"
  by (auto simp: measure_cell_def Let_def
      split: sum.splits if_splits pyval.splits prod.splits option.splits)

lemma measure_rows_kinds:
  "measure_rows pw col_num rws = (err, rws', out) \<Longrightarrow> \<forall>i\<in>set out. is_measure i"
proof (induction rws arbitrary: err rws' out)
  case Nil
  then show ?case by simp
next
  case (Cons row rws)
  obtain e1 r1 o1 where m: "measure_cell pw col_num row = (e1, r1, o1)"
    by (cases "measure_cell pw col_num row") auto
  obtain e2 r2 o2 where m2: "measure_rows pw col_num rws = (e2, r2, o2)"
    by (cases "measure_rows pw col_num rws") auto
  show ?case
    using Cons.prems m m2 measure_cell_kinds[OF m] Cons.IH[OF m2]
    by (cases e1) auto
qed

lemma span_cells_kinds:
  "span_cells cs g = (err, g', out) \<Longrightarrow> \<forall>i\<in>set out. is_span i"
proof (induction cs arbitrary: g err g' out)
  case Nil
  then show ?case by simp
next
  case (Cons cell cs)
  then show ?case
    by (auto split: if_splits sum.splits prod.splits)
qed

lemma span_rows_kinds:
  "span_rows rws g = (err, g', out) \<Longrightarrow> \<forall>i\<in>set out. is_span i"
proof (induction rws arbitrary: g err g' out)
  case Nil
  then show ?case by simp
next
  case (Cons row rws)
  obtain e1 g1 o1 where c: "span_cells (cells row) g = (e1, g1, o1)"
    by (cases "span_cells (cells row) g") auto
  obtain e2 g2 o2 where r: "span_rows rws g1 = (e2, g2, o2)"
    by (cases "span_rows rws g1") auto
  show ?case
    using Cons.prems c r span_cells_kinds[OF c] Cons.IH[OF r]
    by (cases e1) auto
qed

lemma measure_frame:
  "is_measure i \<Longrightarrow>
   grcurcolend (exec env i T) = grcurcolend T \<and> grtempwidth (exec env i T) = grtempwidth T
   \<and> grtofixcnt (exec env i T) = grtofixcnt T"
  by (cases i) (auto simp: macro_defs Let_def)

lemma measures_frame:
  assumes "\<forall>i\<in>set xs. is_measure i"
  shows "grcurcolend (fold (exec env) xs T) = grcurcolend T
     \<and> grtempwidth (fold (exec env) xs T) = grtempwidth T"
proof -
  have "grcurcolend (fold (exec env) xs T) = grcurcolend T
     \<and> grtempwidth (fold (exec env) xs T) = grtempwidth T"
    by (rule fold_preserves[where P="\<lambda>T'. grcurcolend T' = grcurcolend T
          \<and> grtempwidth T' = grtempwidth T"])
       (use assms measure_frame in auto)
  then show ?thesis .
qed

lemma firstfix_frame:
  "grcurcolend (exec env (GrColsFirstFix c) T) =
     grcurcolend T + grtempwidth (exec env (GrColsFirstFix c) T) c
   \<and> (\<forall>d. d \<noteq> c \<longrightarrow> grtempwidth (exec env (GrColsFirstFix c) T) d = grtempwidth T d)"
  by (auto simp: macro_defs Let_def)

lemma first_pass_widths:
  "first_pass pw (map int is) rws = (None, rws', chars, out) \<Longrightarrow> distinct is \<Longrightarrow>
   grcurcolend (fold (exec env) out T) =
     grcurcolend T + sum_list (map (grtempwidth (fold (exec env) out T)) chars)
   \<and> (\<forall>d. d \<notin> set chars \<longrightarrow> grtempwidth (fold (exec env) out T) d = grtempwidth T d)
   \<and> unset_or_final (set chars) (fold (exec env) out T)
   \<and> (\<forall>i\<in>set out. \<not> is_fourthfix i)"
proof (induction "is" arbitrary: rws rws' chars out T)
  case Nil
  then show ?case by (simp add: unset_or_final_def)
next
  case (Cons i "is")
  from Cons.prems obtain c where g: "get_charform (int i) = Inr c"
    by (cases "get_charform (int i)") auto
  obtain e1 r1 o1 where m: "measure_rows pw (int i) rws = (e1, r1, o1)"
    by (cases "measure_rows pw (int i) rws") auto
  have e1: "e1 = None" using Cons.prems g m by (cases e1) auto
  obtain e2 r2 c2 o2 where f: "first_pass pw (map int is) r1 = (e2, r2, c2, o2)"
    by (cases "first_pass pw (map int is) r1") auto
  have e2: "e2 = None" "chars = c # c2" "out = o1 @ [GrColsFirstFix c] @ o2"
    using Cons.prems g m e1 f by auto
  have fo: "filter is_pass o2 = map GrColsFirstFix c2 \<and> c2 = map letter is \<and> (\<forall>i\<in>set is. i < 26)"
    using first_pass_out[of pw "is" r1 r2 c2 o2] f e2 by simp
  have ci: "c = letter i" "i < 26" using get_charform_nat[OF g] by simp_all
  have cn: "c \<notin> set c2"
  proof
    assume "c \<in> set c2"
    then obtain j where "j \<in> set is" "letter j = letter i" using fo ci by auto
    then have "j = i" using fo ci letter_inj[of j i] by auto
    with \<open>j \<in> set is\<close> Cons.prems(2) show False by simp
  qed
  define Ta where "Ta = fold (exec env) o1 T"
  define Tb where "Tb = exec env (GrColsFirstFix c) Ta"
  define Tc where "Tc = fold (exec env) o2 Tb"
  have om: "\<forall>i\<in>set o1. is_measure i" using measure_rows_kinds[OF m] .
  have a: "grcurcolend Ta = grcurcolend T" "grtempwidth Ta = grtempwidth T"
    using measures_frame[OF om, of env T] by (simp_all add: Ta_def)
  have b: "grcurcolend Tb = grcurcolend Ta + grtempwidth Tb c"
    "\<forall>d. d \<noteq> c \<longrightarrow> grtempwidth Tb d = grtempwidth Ta d"
    using firstfix_frame[of env c Ta] by (simp_all add: Tb_def)
  have ub: "unset_or_final {c} Tb"
    using firstfix_unset_or_final[of "{}" Ta c env] by (simp add: Tb_def unset_or_final_def)
  have ih: "grcurcolend Tc = grcurcolend Tb + sum_list (map (grtempwidth Tc) c2)
     \<and> (\<forall>d. d \<notin> set c2 \<longrightarrow> grtempwidth Tc d = grtempwidth Tb d)
     \<and> unset_or_final (set c2) Tc \<and> (\<forall>i\<in>set o2. \<not> is_fourthfix i)"
    using Cons.IH[of r1 r2 c2 o2 Tb] f e2 Cons.prems(2) by (simp add: Tc_def)
  have uc: "unset_or_final {c} Tc"
    unfolding Tc_def by (rule fold_preserves[where P="unset_or_final {c}"])
      (use ub exec_unset_or_final in auto)
  have out: "fold (exec env) out T = Tc" by (simp add: e2 Ta_def Tb_def Tc_def)
  have nf: "\<forall>i\<in>set o1. \<not> is_fourthfix i"
  proof
    fix x assume "x \<in> set o1"
    then have "is_measure x" using om by simp
    then show "\<not> is_fourthfix x" by (cases x) auto
  qed
  have "grtempwidth Tc c = grtempwidth Tb c" using ih cn by simp
  then show ?case
    unfolding out using ih a b uc cn nf
    by (auto simp: e2 unset_or_final_def)
qed

lemma fit_frame:
  "is_after_first i \<Longrightarrow> fits T \<Longrightarrow>
   fits (exec env i T) \<and> grtempwidth (exec env i T) = grtempwidth T
   \<and> grcurcolend (exec env i T) = grcurcolend T"
  by (cases i) (auto simp: fits_def macro_defs Let_def)

lemma after_first_curcolend:
  "is_after_first i \<Longrightarrow> grcurcolend (exec env i T) = grcurcolend T"
  by (cases i) (auto simp: macro_defs Let_def)

lemma is_span_after_first: "is_span i \<Longrightarrow> is_after_first i \<and> \<not> is_fourthfix i"
  by (cases i) auto

lemma no_count_after_third:
  "is_fourthfix i \<or> is_span i \<Longrightarrow> grtofixcnt (exec env i T) = grtofixcnt T"
  by (cases i) (auto simp: macro_defs Let_def)

lemma calc_latex_widths_output:
  assumes "calc_latex_widths st = (None, st')"
  obtains rws cols o1 g o2 where
    "first_pass (pict_width st) (map int [0..<nat (numcols st)]) (rows (tabmem st))
       = (None, rws, cols, o1)"
    and "span_rows rws (str_incr MULTCOL_COUNT_BASE) = (None, g, o2)"
    and "calc_output st = o1 @ fix_passes cols @ o2"
proof -
  obtain e1 rws chars o1 where
    f: "first_pass (pict_width st) (map int [0..<nat (numcols st)]) (rows (tabmem st))
          = (e1, rws, chars, o1)"
    by (cases "first_pass (pict_width st) (map int [0..<nat (numcols st)]) (rows (tabmem st))")
       auto
  have e1: "e1 = None" using assms f by (cases e1) (auto simp: calc_latex_widths_def upto_nat)
  obtain e2 g o2 where s: "span_rows rws (str_incr MULTCOL_COUNT_BASE) = (e2, g, o2)"
    by (cases "span_rows rws (str_incr MULTCOL_COUNT_BASE)") auto
  have e2: "e2 = None" using assms f e1 s by (auto simp: calc_latex_widths_def upto_nat)
  have "backend st' = backend st @ (o1 @ fix_passes chars @ o2)"
    using assms f e1 s by (auto simp: calc_latex_widths_def upto_nat)
  then have "calc_output st = o1 @ fix_passes chars @ o2"
    using assms by (simp add: calc_output_def)
  then show ?thesis using that f e1 s e2 by simp
qed


lemma fix_passes_after_first: "\<forall>i\<in>set (fix_passes cols). is_after_first i"
  by (auto simp: fix_passes_def)

text \<open>
  What the four passes establish. Let the instructions that \<open>calc_latex_widths\<close> wrote be
  executed from registers in which \<open>\grcurcolend\<close> is zero, as \<open>\grinittab\<close> leaves it.
  Then every column is finalised: its final width equals its working width, which
  includes the padding \<open>2\tabcolsep\<close>. When the natural widths fit the table
  (\<open>\grcurcolend < \grtabwidth\<close>), the final widths add up to \<open>\grcurcolend\<close>, which is
  below the table width. The counter \<open>grtofixcnt\<close> is not touched by the fourth pass: at
  the end it has the value it had before the first \<open>\grcolsfourthfix\<close>, the number of
  columns that the first pass found too wide less those that the second and third pass
  fixed.
\<close>

lemma width_negotiation_outcome:
  assumes ok: "calc_latex_widths st = (None, st')" and z: "grcurcolend T0 = 0"
  shows "(\<forall>c\<in>set (map letter [0..<nat (numcols st)]).
            grfinalwidth (negotiate env st T0) c = grtempwidth (negotiate env st T0) c)
     \<and> (grcurcolend (negotiate env st T0) < grtabwidth (negotiate env st T0) \<longrightarrow>
          sum_list (map (grfinalwidth (negotiate env st T0)) (map letter [0..<nat (numcols st)]))
            = grcurcolend (negotiate env st T0))
     \<and> grtofixcnt (negotiate env st T0) =
         grtofixcnt (fold (exec env) (takeWhile (\<lambda>i. \<not> is_fourthfix i) (calc_output st)) T0)"
proof -
  obtain rws cols o1 g o2 where
    fp: "first_pass (pict_width st) (map int [0..<nat (numcols st)]) (rows (tabmem st))
           = (None, rws, cols, o1)"
    and sp: "span_rows rws (str_incr MULTCOL_COUNT_BASE) = (None, g, o2)"
    and co: "calc_output st = o1 @ fix_passes cols @ o2"
    using calc_latex_widths_output[OF ok] by blast
  have cols: "cols = map letter [0..<nat (numcols st)]"
    using first_pass_out[OF fp] by simp
  define Ta where "Ta = fold (exec env) o1 T0"
  define T where "T = negotiate env st T0"
  have w: "grcurcolend Ta = sum_list (map (grtempwidth Ta) cols)"
    "unset_or_final (set cols) Ta" "\<forall>i\<in>set o1. \<not> is_fourthfix i"
    using first_pass_widths[OF fp, of env T0] z by (simp_all add: Ta_def)
  have o2s: "\<forall>i\<in>set o2. is_span i" using span_rows_kinds[OF sp] .
  have o2a: "\<forall>i\<in>set o2. is_after_first i" using o2s is_span_after_first by blast
  define seconds where "seconds = GrDivideLength # map GrColsSecondFix cols"
  define thirds where "thirds = GrDivideLength # map GrColsThirdFix cols @ [GrDivideLength]"
  define fourths where "fourths = map GrColsFourthFix cols"
  have fx: "fix_passes cols = seconds @ thirds @ fourths"
    by (simp add: fix_passes_def seconds_def thirds_def fourths_def)
  have T: "T = fold (exec env) o2 (fold (exec env) fourths (fold (exec env) thirds
                 (fold (exec env) seconds Ta)))"
    by (simp add: T_def negotiate_def co fx Ta_def)
  have sa: "\<forall>i\<in>set seconds. is_after_first i" by (auto simp: seconds_def)
  have ta: "\<forall>i\<in>set thirds. is_after_first i" by (auto simp: thirds_def)
  have fa: "\<forall>i\<in>set fourths. is_after_first i" by (auto simp: fourths_def)
  define Tb where "Tb = fold (exec env) seconds Ta"
  define Tc where "Tc = fold (exec env) thirds Tb"
  define Td where "Td = fold (exec env) fourths Tc"
  have Tf: "T = fold (exec env) o2 Td" by (simp add: T Tb_def Tc_def Td_def)
  have keep_fit: "fits (fold (exec env) xs X) = fits X" if "\<forall>i\<in>set xs. is_after_first i"
    for xs X
    by (rule fold_preserves[where P="\<lambda>T'. fits T' = fits X"])
       (use that after_first_fits in auto)
  have keep_final: "all_final S (fold (exec env) xs X)"
    if "\<forall>i\<in>set xs. is_after_first i" "all_final S X" for xs X S
    by (rule fold_preserves[where P="all_final S"]) (use that after_first_all_final in auto)
  have keep_unset: "unset_or_final S (fold (exec env) xs X)" if "unset_or_final S X" for xs X S
    by (rule fold_preserves[where P="unset_or_final S"]) (use that exec_unset_or_final in auto)
  have fit_b: "fits Tb = fits Ta" unfolding Tb_def using sa by (rule keep_fit)
  have fit_c: "fits Tc = fits Ta" unfolding Tc_def using ta fit_b by (simp add: keep_fit)
  have fit_d: "fits Td = fits Ta" unfolding Td_def using fa fit_c by (simp add: keep_fit)
  have fit_T: "fits T = fits Ta" unfolding Tf using o2a fit_d by (simp add: keep_fit)
  have final_d: "all_final (set cols) Td"
  proof (cases "fits Ta")
    case True
    have "fits (exec env GrDivideLength Ta)"
      using True after_first_fits[of GrDivideLength env Ta] by simp
    moreover have "all_final {} (exec env GrDivideLength Ta)" by (simp add: all_final_def)
    ultimately have "all_final ({} \<union> set cols)
        (fold (exec env) (map GrColsSecondFix cols) (exec env GrDivideLength Ta))"
      by (rule seconds_all_final)
    then have "all_final (set cols) Tb" by (simp add: Tb_def seconds_def)
    then have "all_final (set cols) Tc" unfolding Tc_def using ta by (intro keep_final)
    then show ?thesis unfolding Td_def using fa by (intro keep_final)
  next
    case False
    have nf: "\<not> fits Tc" using False fit_c by simp
    have "unset_or_final (set cols) Tb" unfolding Tb_def using w(2) by (rule keep_unset)
    then have u: "unset_or_final (set cols) Tc" unfolding Tc_def by (rule keep_unset)
    have "all_final ({} \<union> set cols) (fold (exec env) (map GrColsFourthFix cols) Tc)"
      using nf u by (rule fourths_all_final) (simp_all add: all_final_def)
    then show ?thesis by (simp add: Td_def fourths_def)
  qed
  have final_T: "all_final (set cols) T" unfolding Tf using o2a final_d by (intro keep_final)
  have p1: "\<forall>c\<in>set cols. grfinalwidth T c = grtempwidth T c"
    using final_T by (simp add: all_final_def)
  have p2: "sum_list (map (grfinalwidth T) cols) = grcurcolend T" if "fits T"
  proof -
    have fa': "fits Ta" using that fit_T by simp
    have all: "\<forall>i\<in>set (fix_passes cols @ o2). is_after_first i"
      using fix_passes_after_first o2a by auto
    have "fits (fold (exec env) (fix_passes cols @ o2) Ta)
        \<and> grtempwidth (fold (exec env) (fix_passes cols @ o2) Ta) = grtempwidth Ta
        \<and> grcurcolend (fold (exec env) (fix_passes cols @ o2) Ta) = grcurcolend Ta"
      by (rule fold_preserves[where P="\<lambda>T'. fits T' \<and> grtempwidth T' = grtempwidth Ta
            \<and> grcurcolend T' = grcurcolend Ta"])
         (use all fa' fit_frame in auto)
    moreover have "fold (exec env) (fix_passes cols @ o2) Ta = T"
      by (simp add: T_def negotiate_def co Ta_def)
    ultimately have same: "grtempwidth T = grtempwidth Ta" "grcurcolend T = grcurcolend Ta"
      by simp_all
    have "map (grfinalwidth T) cols = map (grtempwidth T) cols"
      using p1 by simp
    then have "sum_list (map (grfinalwidth T) cols) = sum_list (map (grtempwidth Ta) cols)"
      by (simp only: same)
    then show ?thesis using w(1) same by simp
  qed
  have p3: "grtofixcnt T =
      grtofixcnt (fold (exec env) (takeWhile (\<lambda>i. \<not> is_fourthfix i) (calc_output st)) T0)"
  proof -
    define pre where "pre = o1 @ seconds @ thirds"
    define rest where "rest = fourths @ o2"
    have c: "calc_output st = pre @ rest" by (simp add: co fx pre_def rest_def)
    have np: "\<And>x. x \<in> set pre \<Longrightarrow> \<not> is_fourthfix x"
      using w(3) by (auto simp: pre_def seconds_def thirds_def)
    have tw: "takeWhile (\<lambda>i. \<not> is_fourthfix i) (calc_output st) =
        pre @ takeWhile (\<lambda>i. \<not> is_fourthfix i) rest"
      unfolding c using np by (rule takeWhile_append2)
    define X where "X = fold (exec env) (takeWhile (\<lambda>i. \<not> is_fourthfix i) rest)
        (fold (exec env) pre T0)"
    have Tr: "T = fold (exec env) rest (fold (exec env) pre T0)"
      by (simp add: T_def negotiate_def c)
    have "fold (exec env) (takeWhile (\<lambda>i. \<not> is_fourthfix i) rest
            @ dropWhile (\<lambda>i. \<not> is_fourthfix i) rest) (fold (exec env) pre T0)
        = fold (exec env) (dropWhile (\<lambda>i. \<not> is_fourthfix i) rest) X"
      by (simp only: fold_append comp_apply X_def)
    then have Tx: "T = fold (exec env) (dropWhile (\<lambda>i. \<not> is_fourthfix i) rest) X"
      by (simp only: takeWhile_dropWhile_id Tr)
    have "\<And>i. i \<in> set (dropWhile (\<lambda>i. \<not> is_fourthfix i) rest) \<Longrightarrow> is_fourthfix i \<or> is_span i"
      using o2s by (auto simp: rest_def fourths_def dest!: set_dropWhileD)
    then have "grtofixcnt (fold (exec env) (dropWhile (\<lambda>i. \<not> is_fourthfix i) rest) X) = grtofixcnt X"
      by (intro fold_preserves[where P="\<lambda>T'. grtofixcnt T' = grtofixcnt X"])
         (auto simp: no_count_after_third)
    then show ?thesis by (simp add: Tx tw X_def)
  qed
  show ?thesis
    using p1 p2 p3 unfolding T_def cols fits_def by blast
qed


lemma table_example_letters: "map letter [0..<nat (numcols table_example)] = ''ab''"
  by code_simp

lemma table_example_fits:
  "grcurcolend (negotiate env_example table_example (exec env_example (GrInitTab 2) tex_zero)) = 84
   \<and> grtabwidth (negotiate env_example table_example (exec env_example (GrInitTab 2) tex_zero))
       = 100"
  by code_simp

lemma width_negotiation_outcome_example:
  "calc_latex_widths table_example = (None, snd (calc_latex_widths table_example))
   \<and> grcurcolend (exec env_example (GrInitTab 2) tex_zero) = 0
   \<and> grfinalwidth (negotiate env_example table_example
          (exec env_example (GrInitTab 2) tex_zero)) (CHR ''a'')
       = grtempwidth (negotiate env_example table_example
          (exec env_example (GrInitTab 2) tex_zero)) (CHR ''a'')
   \<and> sum_list (map (grfinalwidth (negotiate env_example table_example
          (exec env_example (GrInitTab 2) tex_zero))) ''ab'') = 84"
proof -
  have r: "calc_latex_widths table_example = (None, snd (calc_latex_widths table_example))"
    using table_example_returns by (cases "calc_latex_widths table_example") simp
  have z: "grcurcolend (exec env_example (GrInitTab 2) tex_zero) = 0"
    by (simp add: grinittab_def)
  show ?thesis
    using width_negotiation_outcome[OF r z, of env_example] r z table_example_fits
    by (simp add: table_example_letters)
qed

text \<open>
  For a table whose single column is wider than the text, the fourth pass finalises the
  column at the whole table width, and \<open>grtofixcnt\<close> is 1 at the end of pass 4.
\<close>

lemma fourth_fix_leaves_counter:
  "fst (calc_latex_widths wide_example) = None
   \<and> grtofixcnt (negotiate env_example wide_example
         (exec env_example (GrInitTab (numcols wide_example)) tex_zero)) = 1
   \<and> grfinalwidth (negotiate env_example wide_example
         (exec env_example (GrInitTab (numcols wide_example)) tex_zero)) (CHR ''a'') = 100"
  by code_simp

text \<open>
  Claim C2 does not hold of the code. Seven columns that are all too wide for their
  share are all left to the fourth pass, where \<open>\grdividelength\<close> gives each of them
  \<open>0.143\<close> of the table width: the factor for seven columns is rounded up, where
  \<open>0.333\<close>, \<open>0.166\<close> and \<open>0.111\<close> for three, six and nine columns are cut off. With a
  table width of 7000 units and products rounded down, every column is finalised at
  1001 units and the final widths add up to 7007. The counter \<open>grtofixcnt\<close> is 7 at the
  end of pass 4: \<open>\grcolsfourthfix\<close> finalises a column without the
  \<open>\addtocounter{grtofixcnt}{-1}\<close> with which \<open>\grcolssecondfix\<close> and \<open>\grcolsthirdfix\<close>
  finalise one.
\<close>

theorem seven_columns_exceed_width:
  "fst (calc_latex_widths seven_columns) = None
   \<and> grtabwidth (negotiate env_wide seven_columns (exec env_wide (GrInitTab 7) tex_zero)) = 7000
   \<and> map (grfinalwidth (negotiate env_wide seven_columns (exec env_wide (GrInitTab 7) tex_zero)))
         ''abcdefg'' = [1001, 1001, 1001, 1001, 1001, 1001, 1001]
   \<and> sum_list (map (grfinalwidth
         (negotiate env_wide seven_columns (exec env_wide (GrInitTab 7) tex_zero))) ''abcdefg'')
       = 7007
   \<and> grtofixcnt (negotiate env_wide seven_columns (exec env_wide (GrInitTab 7) tex_zero)) = 7"
  by code_simp

section \<open>A table of more than 26 columns\<close>

text \<open>A cell-begin event for a column beyond the 26th raises the ValueError of
  \<open>get_charform\<close>, when the event reaches \<open>handle_table\<close>.\<close>

lemma emit_CELL_BEG_beyond_z:
  assumes "in_table st" and "26 < curcol st"
  shows "fst (emit text level CELL_BEG spn st) = Some ValueError"
proof -
  have g: "get_charform (curcol st - 1) = Inl ValueError"
    using assms(2) by (intro get_charform_too_big) simp
  show ?thesis
    using assms(1) by (simp add: emit_def Let_def g)
qed

text \<open>
  Claim C7 does not hold of the code. \<open>get_charform\<close> itself raises exactly for an index
  above 25 (lemma \<open>get_charform_raises_iff\<close>), but a table that needs more than 26 columns
  triggers no error: \<open>start_table\<close> has no test of the column count, although the
  docstring of \<open>get_charform\<close> names one ("early test of column count in start_table()"),
  and the interface passes the routing constants to \<open>emit\<close> as the level, so that no
  event of the table reaches a call of \<open>get_charform\<close>. A table of 27 columns with one
  row of 27 cells runs from \<open>start_table\<close> to \<open>end_table\<close> without an exception, and
  nothing is written.
\<close>

theorem table_of_27_columns_no_error:
  "fst (table_of_columns 27) = None
   \<and> numcols (snd (table_of_columns 27)) = 27
   \<and> curcol (snd (table_of_columns 27)) = 27
   \<and> backend (snd (table_of_columns 27)) = []
   \<and> rows (tabmem (snd (table_of_columns 27))) = []
   \<and> \<not> in_table (snd (table_of_columns 27))"
  by code_simp

end
